theory Spec2Isabelle
  imports Main
begin

section \<open>Weekly GitHub activity report: classification, reconciliation, rendering\<close>

text \<open>
  A shallow embedding of \<^verbatim>\<open>main.go\<close>. Go strings are byte sequences and are modelled
  as \<^typ>\<open>string\<close>. A Go map is a partial function; a map used as a set
  (\<^verbatim>\<open>map[url]struct{}\<close>) is a set. Every \<^verbatim>\<open>log.Fatalf\<close> is a value of
  \<open>fatal\<close> returned on the left of a sum. A \<^verbatim>\<open>range\<close> over a map visits every key
  once, in an order the runtime chooses: each such loop takes the visiting order as an
  argument, and the theorems hold for every order.
\<close>

subsection \<open>Library functions on strings\<close>

definition HasPrefix :: "string \<Rightarrow> string \<Rightarrow> bool" where
  "HasPrefix s p \<longleftrightarrow> length s \<ge> length p \<and> take (length p) s = p"

definition TrimPrefix :: "string \<Rightarrow> string \<Rightarrow> string" where
  "TrimPrefix s p = (if HasPrefix s p then drop (length p) s else s)"

text \<open>
  \<^verbatim>\<open>strings.Split(s, sep)\<close> for a one-byte separator: the substrings between the
  separators, so one more element than there are separators (the empty string gives one
  empty element).
\<close>

fun Split :: "string \<Rightarrow> char \<Rightarrow> string list" where
  "Split [] sep = ['''']"
| "Split (c # cs) sep =
     (if c = sep then [] # Split cs sep
      else (case Split cs sep of [] \<Rightarrow> [c] # [] | x # xs \<Rightarrow> (c # x) # xs))"

text \<open>\<^verbatim>\<open>strings.Join(elems, sep)\<close>.\<close>

fun Join :: "string list \<Rightarrow> string \<Rightarrow> string" where
  "Join [] sep = []"
| "Join [x] sep = x"
| "Join (x # y # ys) sep = x @ sep @ Join (y # ys) sep"

text \<open>
  \<^verbatim>\<open>strings.Replace(s, "\t", "    ", -1)\<close>: every tab byte becomes four spaces.
\<close>

definition tab :: char where
  "tab = CHR 0x09"

definition newline :: char where
  "newline = CHR 0x0A"

definition ReplaceTabs :: "string \<Rightarrow> string" where
  "ReplaceTabs s = concat (map (\<lambda>c. if c = tab then ''    '' else [c]) s)"

text \<open>
  \<^verbatim>\<open>strconv.Atoi\<close> on a platform whose \<^verbatim>\<open>int\<close> has 64 bits: an optional sign,
  then at least one decimal digit and nothing else, and a value between \<open>- 2^63\<close> and
  \<open>2^63 - 1\<close>. \<open>None\<close> stands for a non-nil error (syntax or range).
\<close>

definition digitVal :: "char \<Rightarrow> nat option" where
  "digitVal c =
     (let n = (of_char c :: nat) in if 48 \<le> n \<and> n \<le> 57 then Some (n - 48) else None)"

fun parseDigits :: "nat \<Rightarrow> string \<Rightarrow> nat option" where
  "parseDigits acc [] = Some acc"
| "parseDigits acc (c # cs) =
     (case digitVal c of None \<Rightarrow> None | Some d \<Rightarrow> parseDigits (acc * 10 + d) cs)"

definition Atoi :: "string \<Rightarrow> int option" where
  "Atoi s =
     (case s of
        [] \<Rightarrow> None
      | c # cs \<Rightarrow>
          (let neg = (c = CHR ''-'');
               ds = (if c = CHR ''-'' \<or> c = CHR ''+'' then cs else s)
           in if ds = [] then None
              else (case parseDigits 0 ds of
                      None \<Rightarrow> None
                    | Some n \<Rightarrow>
                        if neg then (if n \<le> 2 ^ 63 then Some (- int n) else None)
                        else (if n < 2 ^ 63 then Some (int n) else None))))"

subsection \<open>Data model\<close>

type_synonym url = string

datatype fatal =
    UnableToParseEvent
  | NilDereference
  | BadPrefix string
  | IncorrectSplits string
  | UnparsableFourthSplit string
  | UnableToGetPR url

record prInfo =
  owner :: string
  repo :: string
  number :: int

subsection \<open>Pull-request URL decomposition\<close>

definition crackPRInfo :: "string \<Rightarrow> fatal + prInfo" where
  "crackPRInfo u =
     (let prefix = ''https://github.com/'' in
      if \<not> HasPrefix u prefix then Inl (BadPrefix u)
      else
        (let u' = TrimPrefix u prefix;
             splits = Split u' (CHR ''/'')
         in if length splits < 4 then Inl (IncorrectSplits u')
            else (case Atoi (splits ! 3) of
                    None \<Rightarrow> Inl (UnparsableFourthSplit u')
                  | Some n \<Rightarrow>
                      Inr \<lparr>owner = splits ! 0, repo = splits ! 1, number = n\<rparr>)))"

subsection \<open>Issues, pull requests and events\<close>

text \<open>
  The fields of the platform library's \<^verbatim>\<open>Issue\<close> and \<^verbatim>\<open>PullRequest\<close> that the
  program reads. The library's getters return the zero value for an absent field, so an
  absent title, address, login or state is the empty string.
\<close>

record nameable =
  GetTitle :: string
  GetHTMLURL :: string

record issue =
  issueTitle :: string
  issueHTMLURL :: string
  IsPullRequest :: bool

record pullRequest =
  GetLogin :: string
  GetState :: string
  Labels :: "string list"
  GetMerged :: bool
  prTitle :: string
  prHTMLURL :: string

definition issueNameable :: "issue \<Rightarrow> nameable" where
  "issueNameable i = \<lparr>GetTitle = issueTitle i, GetHTMLURL = issueHTMLURL i\<rparr>"

definition prNameable :: "pullRequest \<Rightarrow> nameable" where
  "prNameable pr = \<lparr>GetTitle = prTitle pr, GetHTMLURL = prHTMLURL pr\<rparr>"

text \<open>
  The decoded payload of an activity event, one constructor for each case of the type
  switch in \<^verbatim>\<open>organizeEvents\<close>; \<open>OtherEvent\<close> is its default case. The four
  shapes that refer to an issue or a pull request are taken with that item present.
\<close>

datatype payload =
    IssueCommentEvent issue
  | IssuesEvent issue
  | PullRequestEvent pullRequest
  | PullRequestReviewCommentEvent pullRequest
  | CommitCommentEvent
  | CreateEvent
  | PushEvent
  | DeleteEvent
  | OtherEvent

record issuesAndPRs =
  ge_names :: "url \<rightharpoonup> string"
  ge_issues :: "url \<rightharpoonup> issue"
  ge_prs :: "url \<rightharpoonup> prInfo"

record eventSets =
  names :: "url \<rightharpoonup> string"
  merged :: "url set"
  abandoned :: "url set"
  underReview :: "url set"
  inProgress :: "url set"
  reviewed :: "url set"
  issues :: "url set"

subsection \<open>Identifier and name registry\<close>

text \<open>\<^verbatim>\<open>fmt.Sprintf("[%s](%s)", n.GetTitle(), n.GetHTMLURL())\<close>\<close>

definition formatName :: "nameable \<Rightarrow> string" where
  "formatName n = ''['' @ GetTitle n @ '']('' @ GetHTMLURL n @ '')''"

definition overrideName :: "issuesAndPRs \<Rightarrow> url \<Rightarrow> nameable \<Rightarrow> issuesAndPRs" where
  "overrideName e u n = e\<lparr>ge_names := (ge_names e)(u \<mapsto> formatName n)\<rparr>"

definition addName :: "issuesAndPRs \<Rightarrow> nameable \<Rightarrow> issuesAndPRs \<times> url" where
  "addName e n =
     (let u = GetHTMLURL n in
      if ge_names e u = None then (overrideName e u n, u) else (e, u))"

subsection \<open>Discovery\<close>

definition addIssue :: "issuesAndPRs \<Rightarrow> issue \<Rightarrow> fatal + issuesAndPRs" where
  "addIssue e i =
     (let (e1, u) = addName e (issueNameable i) in
      if IsPullRequest i then
        (case crackPRInfo (issueHTMLURL i) of
           Inl err \<Rightarrow> Inl err
         | Inr info \<Rightarrow> Inr (e1\<lparr>ge_prs := (ge_prs e1)(u \<mapsto> info)\<rparr>))
      else if ge_issues e1 u = None then Inr (e1\<lparr>ge_issues := (ge_issues e1)(u \<mapsto> i)\<rparr>)
      else Inr e1)"

definition addPR :: "issuesAndPRs \<Rightarrow> pullRequest \<Rightarrow> fatal + issuesAndPRs" where
  "addPR e pr =
     (let (e1, u) = addName e (prNameable pr) in
      if ge_prs e1 u = None then
        (case crackPRInfo (prHTMLURL pr) of
           Inl err \<Rightarrow> Inl err
         | Inr info \<Rightarrow> Inr (e1\<lparr>ge_prs := (ge_prs e1)(u \<mapsto> info)\<rparr>))
      else Inr e1)"

text \<open>The body of the second loop of \<^verbatim>\<open>organizeEvents\<close>: the type switch.\<close>

fun route :: "issuesAndPRs \<Rightarrow> payload \<Rightarrow> fatal + issuesAndPRs" where
  "route ge (IssueCommentEvent i) = addIssue ge i"
| "route ge (IssuesEvent i) = addIssue ge i"
| "route ge (PullRequestEvent pr) = addPR ge pr"
| "route ge (PullRequestReviewCommentEvent pr) = addPR ge pr"
| "route ge CommitCommentEvent = Inr ge"
| "route ge CreateEvent = Inr ge"
| "route ge PushEvent = Inr ge"
| "route ge DeleteEvent = Inr ge"
| "route ge OtherEvent = Inr ge"

fun routeAll :: "issuesAndPRs \<Rightarrow> payload list \<Rightarrow> fatal + issuesAndPRs" where
  "routeAll ge [] = Inr ge"
| "routeAll ge (p # ps) =
     (case route ge p of Inl err \<Rightarrow> Inl err | Inr ge' \<Rightarrow> routeAll ge' ps)"

text \<open>
  The first loop of \<^verbatim>\<open>organizeEvents\<close>: every event is decoded before any is routed. An
  event is given by the result of its \<^verbatim>\<open>ParsePayload\<close>, \<open>None\<close> for an error.
\<close>

fun parseAll :: "payload option list \<Rightarrow> fatal + payload list" where
  "parseAll [] = Inr []"
| "parseAll (None # es) = Inl UnableToParseEvent"
| "parseAll (Some p # es) =
     (case parseAll es of Inl err \<Rightarrow> Inl err | Inr ps \<Rightarrow> Inr (p # ps))"

definition organizeEvents :: "payload option list \<Rightarrow> fatal + issuesAndPRs" where
  "organizeEvents events =
     (case parseAll events of
        Inl err \<Rightarrow> Inl err
      | Inr parsed \<Rightarrow>
          routeAll \<lparr>ge_names = Map.empty, ge_issues = Map.empty, ge_prs = Map.empty\<rparr> parsed)"

subsection \<open>Reconciliation\<close>

text \<open>
  The remote platform: the reply to \<^verbatim>\<open>client.PullRequests.Get(ctx, owner, repo, number)\<close>
  made while visiting the reference stored under an identifier, \<open>None\<close> for an error. The
  platform is outside the program and two calls with the same coordinates need not
  agree, so the reply may depend on the reference that is being visited.
\<close>

type_synonym client = "url \<Rightarrow> string \<Rightarrow> string \<Rightarrow> int \<Rightarrow> pullRequest option"

text \<open>
  \<^verbatim>\<open>getPRs\<close>: the loop over \<^verbatim>\<open>e.prs\<close>, visited in the order \<open>ks\<close>. The loop state is
  \<^verbatim>\<open>e\<close> (whose name registry is overwritten) and \<^verbatim>\<open>newPRs\<close>.
\<close>

fun getPRsLoop ::
  "client \<Rightarrow> url list \<Rightarrow> issuesAndPRs \<Rightarrow> (url \<rightharpoonup> pullRequest) \<Rightarrow>
     fatal + (issuesAndPRs \<times> (url \<rightharpoonup> pullRequest))" where
  "getPRsLoop cl [] e newPRs = Inr (e, newPRs)"
| "getPRsLoop cl (u # us) e newPRs =
     (case ge_prs e u of
        None \<Rightarrow> getPRsLoop cl us e newPRs
      | Some pr \<Rightarrow>
          (case cl u (owner pr) (repo pr) (number pr) of
             None \<Rightarrow> Inl (UnableToGetPR u)
           | Some newPR \<Rightarrow>
               getPRsLoop cl us (overrideName e u (prNameable newPR)) (newPRs(u \<mapsto> newPR))))"

definition getPRs ::
  "client \<Rightarrow> url list \<Rightarrow> issuesAndPRs \<Rightarrow> fatal + (issuesAndPRs \<times> (url \<rightharpoonup> pullRequest))" where
  "getPRs cl ks e = getPRsLoop cl ks e Map.empty"

fun isWorkInProgress :: "string list \<Rightarrow> bool" where
  "isWorkInProgress [] = False"
| "isWorkInProgress (l # ls) =
     (if l = ''do-not-merge/work-in-progress'' then True else isWorkInProgress ls)"

text \<open>The body of the loop over the fetched pull requests in \<^verbatim>\<open>makeEventSets\<close>.\<close>

definition classify :: "string \<Rightarrow> url \<Rightarrow> pullRequest \<Rightarrow> eventSets \<Rightarrow> eventSets" where
  "classify user u pr es =
     (if GetLogin pr \<noteq> user then es\<lparr>reviewed := insert u (reviewed es)\<rparr>
      else if GetState pr = ''open'' then
        (if isWorkInProgress (Labels pr) then es\<lparr>inProgress := insert u (inProgress es)\<rparr>
         else es\<lparr>underReview := insert u (underReview es)\<rparr>)
      else if GetState pr = ''closed'' then
        (if GetMerged pr then es\<lparr>merged := insert u (merged es)\<rparr>
         else es\<lparr>abandoned := insert u (abandoned es)\<rparr>)
      else es)"

fun classifyAll ::
  "string \<Rightarrow> (url \<rightharpoonup> pullRequest) \<Rightarrow> url list \<Rightarrow> eventSets \<Rightarrow> eventSets" where
  "classifyAll user prs [] es = es"
| "classifyAll user prs (u # us) es =
     (case prs u of
        None \<Rightarrow> classifyAll user prs us es
      | Some pr \<Rightarrow> classifyAll user prs us (classify user u pr es))"

fun copyIssues :: "url list \<Rightarrow> eventSets \<Rightarrow> eventSets" where
  "copyIssues [] es = es"
| "copyIssues (u # us) es = copyIssues us (es\<lparr>issues := insert u (issues es)\<rparr>)"

text \<open>
  \<^verbatim>\<open>makeEventSets\<close> for the acting user \<open>user\<close> (the flag \<^verbatim>\<open>*user\<close>). Its three loops
  over maps visit \<^verbatim>\<open>e.prs\<close> in the order \<open>ks1\<close>, the fetched pull requests in the order
  \<open>ks2\<close> and \<^verbatim>\<open>e.issues\<close> in the order \<open>ks3\<close>. The name registry is one map shared by
  \<^verbatim>\<open>e\<close> and the result, so the result sees what \<^verbatim>\<open>getPRs\<close> wrote.
\<close>

definition makeEventSets ::
  "string \<Rightarrow> client \<Rightarrow> url list \<Rightarrow> url list \<Rightarrow> url list \<Rightarrow> issuesAndPRs \<Rightarrow> fatal + eventSets" where
  "makeEventSets user cl ks1 ks2 ks3 e =
     (case getPRs cl ks1 e of
        Inl err \<Rightarrow> Inl err
      | Inr (e', prs) \<Rightarrow>
          (let es0 = \<lparr>names = ge_names e', merged = {}, abandoned = {}, underReview = {},
                      inProgress = {}, reviewed = {}, issues = {}\<rparr>;
               es1 = classifyAll user prs ks2 es0;
               es2 = copyIssues ks3 es1
           in Inr (es2\<lparr>names := ge_names e'\<rparr>)))"

text \<open>A visiting order of a set: every member once.\<close>

definition visits :: "'a list \<Rightarrow> 'a set \<Rightarrow> bool" where
  "visits ks s \<longleftrightarrow> distinct ks \<and> set ks = s"

subsection \<open>Report\<close>

text \<open>
  \<^verbatim>\<open>printSection\<close>; the section is given by its members in the order the loop visits
  them, so \<^verbatim>\<open>len(section)\<close> is the length of that list.
\<close>

fun sectionLines :: "(url \<rightharpoonup> string) \<Rightarrow> url list \<Rightarrow> string list" where
  "sectionLines nm [] = []"
| "sectionLines nm (u # us) =
     (case nm u of
        Some name \<Rightarrow> ([tab, tab] @ ''* '' @ name) # sectionLines nm us
      | None \<Rightarrow> sectionLines nm us)"

definition printSection :: "(url \<rightharpoonup> string) \<Rightarrow> url list \<Rightarrow> string \<Rightarrow> string list" where
  "printSection nm section title =
     (if length section > 0 then ([tab] @ ''* '' @ title) # sectionLines nm section
      else [])"

text \<open>The orders in which \<^verbatim>\<open>markdown\<close> visits the six sets.\<close>

record visitOrders =
  v_merged :: "url list"
  v_abandoned :: "url list"
  v_underReview :: "url list"
  v_inProgress :: "url list"
  v_reviewed :: "url list"
  v_issues :: "url list"

definition validOrders :: "visitOrders \<Rightarrow> eventSets \<Rightarrow> bool" where
  "validOrders vo e \<longleftrightarrow>
     visits (v_merged vo) (merged e) \<and> visits (v_abandoned vo) (abandoned e) \<and>
     visits (v_underReview vo) (underReview e) \<and> visits (v_inProgress vo) (inProgress e) \<and>
     visits (v_reviewed vo) (reviewed e) \<and> visits (v_issues vo) (issues e)"

definition markdownLines :: "visitOrders \<Rightarrow> eventSets \<Rightarrow> string list" where
  "markdownLines vo e =
     [''* GitHub'']
     @ printSection (names e) (v_merged vo) ''Merged''
     @ printSection (names e) (v_abandoned vo) ''Abandoned''
     @ printSection (names e) (v_underReview vo) ''Under Review''
     @ printSection (names e) (v_inProgress vo) ''In Progress''
     @ printSection (names e) (v_reviewed vo) ''Reviewed''
     @ printSection (names e) (v_issues vo) ''Issues''"

definition markdown :: "visitOrders \<Rightarrow> eventSets \<Rightarrow> string" where
  "markdown vo e = ReplaceTabs (Join (markdownLines vo e) [newline])"

subsection \<open>Notions used to state the properties\<close>

text \<open>
  The reply fetched for the reference stored under an identifier: the call that
  \<^verbatim>\<open>getPRs\<close> makes for it.
\<close>

definition fetch :: "client \<Rightarrow> issuesAndPRs \<Rightarrow> url \<rightharpoonup> pullRequest" where
  "fetch cl e u =
     (case ge_prs e u of
        None \<Rightarrow> None
      | Some info \<Rightarrow> cl u (owner info) (repo info) (number info))"

text \<open>Every query of a run succeeds.\<close>

definition allFetched :: "client \<Rightarrow> issuesAndPRs \<Rightarrow> bool" where
  "allFetched cl e \<longleftrightarrow> dom (fetch cl e) = dom (ge_prs e)"

text \<open>
  The three loops of \<^verbatim>\<open>makeEventSets\<close> visit the keys of the maps they range over; the
  map of fetched pull requests has the keys of \<^verbatim>\<open>e.prs\<close>.
\<close>

definition validRun :: "url list \<Rightarrow> url list \<Rightarrow> url list \<Rightarrow> issuesAndPRs \<Rightarrow> bool" where
  "validRun ks1 ks2 ks3 e \<longleftrightarrow>
     visits ks1 (dom (ge_prs e)) \<and> visits ks2 (dom (ge_prs e)) \<and>
     visits ks3 (dom (ge_issues e))"

fun pairwiseDisjoint :: "'a set list \<Rightarrow> bool" where
  "pairwiseDisjoint [] \<longleftrightarrow> True"
| "pairwiseDisjoint (x # xs) \<longleftrightarrow> list_all (\<lambda>y. x \<inter> y = {}) xs \<and> pairwiseDisjoint xs"

definition categories :: "eventSets \<Rightarrow> url set list" where
  "categories es =
     [merged es, abandoned es, underReview es, inProgress es, reviewed es, issues es]"

definition discovered :: "issuesAndPRs \<Rightarrow> url set" where
  "discovered e = dom (ge_issues e) \<union> dom (ge_prs e)"

text \<open>A small run used for concrete instances: one pull-request reference.\<close>

definition exURL :: url where
  "exURL = ''https://github.com/o/r/pull/1''"

definition exStore :: issuesAndPRs where
  "exStore =
     \<lparr>ge_names = [exURL \<mapsto> ''[old title](https://github.com/o/r/pull/1)''],
      ge_issues = Map.empty,
      ge_prs = [exURL \<mapsto> \<lparr>owner = ''o'', repo = ''r'', number = 1\<rparr>]\<rparr>"

definition exPR :: "string \<Rightarrow> string \<Rightarrow> string list \<Rightarrow> bool \<Rightarrow> pullRequest" where
  "exPR login st labels mrg =
     \<lparr>GetLogin = login, GetState = st, Labels = labels, GetMerged = mrg,
      prTitle = ''new title'', prHTMLURL = exURL\<rparr>"

definition exClient :: "pullRequest \<Rightarrow> client" where
  "exClient pr = (\<lambda>u ow rp n. if ow = ''o'' \<and> rp = ''r'' \<and> n = 1 then Some pr else None)"

text \<open>
  Two events about one address: an issue that is not flagged as a pull request, and a
  pull request.
\<close>

definition exIssue :: issue where
  "exIssue = \<lparr>issueTitle = ''an issue'', issueHTMLURL = exURL, IsPullRequest = False\<rparr>"

definition exOverlap :: issuesAndPRs where
  "exOverlap =
     \<lparr>ge_names = [exURL \<mapsto> ''[an issue](https://github.com/o/r/pull/1)''],
      ge_issues = [exURL \<mapsto> exIssue],
      ge_prs = [exURL \<mapsto> \<lparr>owner = ''o'', repo = ''r'', number = 1\<rparr>]\<rparr>"

text \<open>The issue or pull request that an event refers to, as \<^verbatim>\<open>addName\<close> sees it.\<close>

fun eventItem :: "payload \<Rightarrow> nameable option" where
  "eventItem (IssueCommentEvent i) = Some (issueNameable i)"
| "eventItem (IssuesEvent i) = Some (issueNameable i)"
| "eventItem (PullRequestEvent pr) = Some (prNameable pr)"
| "eventItem (PullRequestReviewCommentEvent pr) = Some (prNameable pr)"
| "eventItem CommitCommentEvent = None"
| "eventItem CreateEvent = None"
| "eventItem PushEvent = None"
| "eventItem DeleteEvent = None"
| "eventItem OtherEvent = None"

text \<open>Two events about one issue, the newer one first.\<close>

definition exIssueURL :: url where
  "exIssueURL = ''https://github.com/o/r/issues/2''"

definition exNewer :: issue where
  "exNewer = \<lparr>issueTitle = ''newer title'', issueHTMLURL = exIssueURL, IsPullRequest = False\<rparr>"

definition exOlder :: issue where
  "exOlder = \<lparr>issueTitle = ''older title'', issueHTMLURL = exIssueURL, IsPullRequest = False\<rparr>"





text \<open>
  A partition with members in two categories, one of them without a registered name, and
  the partition with no member at all.
\<close>

definition exSets :: eventSets where
  "exSets =
     \<lparr>names = [''u'' \<mapsto> ''[t](u)'', ''w'' \<mapsto> ''[i](w)''],
      merged = {''u'', ''v''}, abandoned = {}, underReview = {}, inProgress = {},
      reviewed = {}, issues = {''w''}\<rparr>"

definition exOrders :: visitOrders where
  "exOrders =
     \<lparr>v_merged = [''v'', ''u''], v_abandoned = [], v_underReview = [], v_inProgress = [],
      v_reviewed = [], v_issues = [''w'']\<rparr>"

definition exEmptySets :: eventSets where
  "exEmptySets =
     \<lparr>names = Map.empty, merged = {}, abandoned = {}, underReview = {}, inProgress = {},
      reviewed = {}, issues = {}\<rparr>"

definition exEmptyOrders :: visitOrders where
  "exEmptyOrders =
     \<lparr>v_merged = [], v_abandoned = [], v_underReview = [], v_inProgress = [],
      v_reviewed = [], v_issues = []\<rparr>"

text \<open>
  An event refers to an identifier when it carries an issue or a pull request with that
  address.
\<close>

definition refersTo :: "url \<Rightarrow> payload option \<Rightarrow> bool" where
  "refersTo u ev =
     (case ev of
        None \<Rightarrow> False
      | Some p \<Rightarrow> (case eventItem p of None \<Rightarrow> False | Some n \<Rightarrow> GetHTMLURL n = u))"

text \<open>
  What discovery finds in a push, a pull-request event and the two events about one
  issue, in this order: one pull-request reference and one plain issue.
\<close>

definition exPopulated :: issuesAndPRs where
  "exPopulated =
     \<lparr>ge_names = [exURL \<mapsto> ''[new title](https://github.com/o/r/pull/1)'',
                  exIssueURL \<mapsto> ''[newer title](https://github.com/o/r/issues/2)''],
      ge_issues = [exIssueURL \<mapsto> exNewer],
      ge_prs = [exURL \<mapsto> \<lparr>owner = ''o'', repo = ''r'', number = 1\<rparr>]\<rparr>"

subsection \<open>Reconciliation: what the loops compute\<close>

lemma fetch_overrideName [simp]: "fetch cl (overrideName e u n) = fetch cl e"
  by (rule ext) (simp add: fetch_def overrideName_def)

lemma fetch_dom: "fetch cl e u = Some pr \<Longrightarrow> u \<in> dom (ge_prs e)"
  by (auto simp: fetch_def split: option.splits)

lemma getPRsLoop_ok:
  assumes "\<forall>u\<in>set ks. ge_prs e u \<noteq> None \<longrightarrow> fetch cl e u \<noteq> None"
  shows "\<exists>e' m'. getPRsLoop cl ks e m = Inr (e', m') \<and>
           ge_prs e' = ge_prs e \<and> ge_issues e' = ge_issues e \<and>
           (\<forall>u. m' u = (if u \<in> set ks \<and> ge_prs e u \<noteq> None then fetch cl e u else m u)) \<and>
           (\<forall>u. ge_names e' u =
                  (if u \<in> set ks \<and> ge_prs e u \<noteq> None
                   then map_option (\<lambda>pr. formatName (prNameable pr)) (fetch cl e u)
                   else ge_names e u))"
  using assms
proof (induction ks arbitrary: e m)
  case Nil
  then show ?case by simp
next
  case (Cons k ks)
  show ?case
  proof (cases "ge_prs e k")
    case None
    have "\<forall>u\<in>set ks. ge_prs e u \<noteq> None \<longrightarrow> fetch cl e u \<noteq> None"
      using Cons.prems by simp
    from Cons.IH [OF this, of m] None show ?thesis
      by auto
  next
    case (Some info)
    then obtain pr where pr: "fetch cl e k = Some pr"
      using Cons.prems by auto
    then have call: "cl k (owner info) (repo info) (number info) = Some pr"
      using Some by (simp add: fetch_def)
    let ?e1 = "overrideName e k (prNameable pr)"
    have prs1: "ge_prs ?e1 = ge_prs e" and iss1: "ge_issues ?e1 = ge_issues e"
      by (simp_all add: overrideName_def)
    have "\<forall>u\<in>set ks. ge_prs ?e1 u \<noteq> None \<longrightarrow> fetch cl ?e1 u \<noteq> None"
      using Cons.prems by (simp add: prs1)
    from Cons.IH [OF this, of "m(k \<mapsto> pr)"]
    obtain e' m' where
      run: "getPRsLoop cl ks ?e1 (m(k \<mapsto> pr)) = Inr (e', m')" and
      g1: "ge_prs e' = ge_prs ?e1" and g2: "ge_issues e' = ge_issues ?e1" and
      g3: "\<forall>u. m' u = (if u \<in> set ks \<and> ge_prs ?e1 u \<noteq> None then fetch cl ?e1 u else (m(k \<mapsto> pr)) u)" and
      g4: "\<forall>u. ge_names e' u =
                  (if u \<in> set ks \<and> ge_prs ?e1 u \<noteq> None
                   then map_option (\<lambda>pr. formatName (prNameable pr)) (fetch cl ?e1 u)
                   else ge_names ?e1 u)"
      by blast
    have f1: "ge_prs e' = ge_prs e" and f2: "ge_issues e' = ge_issues e"
      using g1 g2 prs1 iss1 by simp_all
    have f3: "\<forall>u. m' u = (if u \<in> set ks \<and> ge_prs e u \<noteq> None then fetch cl e u else (m(k \<mapsto> pr)) u)"
      using g3 unfolding prs1 fetch_overrideName .
    have f4: "\<forall>u. ge_names e' u =
                  (if u \<in> set ks \<and> ge_prs e u \<noteq> None
                   then map_option (\<lambda>pr. formatName (prNameable pr)) (fetch cl e u)
                   else ge_names ?e1 u)"
      using g4 unfolding prs1 fetch_overrideName .
    have "getPRsLoop cl (k # ks) e m = Inr (e', m')"
      using Some call run by simp
    moreover have "\<forall>u. m' u = (if u \<in> set (k # ks) \<and> ge_prs e u \<noteq> None then fetch cl e u else m u)"
      using f3 pr Some by auto
    moreover have "\<forall>u. ge_names e' u =
                  (if u \<in> set (k # ks) \<and> ge_prs e u \<noteq> None
                   then map_option (\<lambda>pr. formatName (prNameable pr)) (fetch cl e u)
                   else ge_names e u)"
      using f4 pr Some by (auto simp: overrideName_def)
    ultimately show ?thesis using f1 f2 by blast
  qed
qed

lemma classifyAll_names: "names (classifyAll user prs ks es) = names es"
  by (induction ks arbitrary: es) (auto simp: classify_def split: option.splits)

lemma classifyAll_issues: "issues (classifyAll user prs ks es) = issues es"
  by (induction ks arbitrary: es) (auto simp: classify_def split: option.splits)

lemma classifyAll_reviewed:
  "reviewed (classifyAll user prs ks es) =
     reviewed es \<union> {u \<in> set ks. \<exists>pr. prs u = Some pr \<and> GetLogin pr \<noteq> user}"
  by (induction ks arbitrary: es) (auto simp: classify_def split: option.splits)

lemma classifyAll_inProgress:
  "inProgress (classifyAll user prs ks es) =
     inProgress es \<union> {u \<in> set ks. \<exists>pr. prs u = Some pr \<and> GetLogin pr = user \<and>
        GetState pr = ''open'' \<and> isWorkInProgress (Labels pr)}"
  by (induction ks arbitrary: es) (auto simp: classify_def split: option.splits)

lemma classifyAll_underReview:
  "underReview (classifyAll user prs ks es) =
     underReview es \<union> {u \<in> set ks. \<exists>pr. prs u = Some pr \<and> GetLogin pr = user \<and>
        GetState pr = ''open'' \<and> \<not> isWorkInProgress (Labels pr)}"
  by (induction ks arbitrary: es) (auto simp: classify_def split: option.splits)

lemma classifyAll_merged:
  "merged (classifyAll user prs ks es) =
     merged es \<union> {u \<in> set ks. \<exists>pr. prs u = Some pr \<and> GetLogin pr = user \<and>
        GetState pr = ''closed'' \<and> GetMerged pr}"
  by (induction ks arbitrary: es) (auto simp: classify_def split: option.splits)

lemma classifyAll_abandoned:
  "abandoned (classifyAll user prs ks es) =
     abandoned es \<union> {u \<in> set ks. \<exists>pr. prs u = Some pr \<and> GetLogin pr = user \<and>
        GetState pr = ''closed'' \<and> \<not> GetMerged pr}"
  by (induction ks arbitrary: es) (auto simp: classify_def split: option.splits)

lemma copyIssues_issues: "issues (copyIssues ks es) = issues es \<union> set ks"
  by (induction ks arbitrary: es) auto

lemma copyIssues_others:
  "names (copyIssues ks es) = names es" "merged (copyIssues ks es) = merged es"
  "abandoned (copyIssues ks es) = abandoned es" "underReview (copyIssues ks es) = underReview es"
  "inProgress (copyIssues ks es) = inProgress es" "reviewed (copyIssues ks es) = reviewed es"
  by (induction ks arbitrary: es) auto

lemma isWorkInProgress_iff:
  "isWorkInProgress ls \<longleftrightarrow> ''do-not-merge/work-in-progress'' \<in> set ls"
  by (induction ls) auto

lemma makeEventSets_ok:
  assumes af: "allFetched cl e" and vr: "validRun ks1 ks2 ks3 e"
  shows "\<exists>es. makeEventSets user cl ks1 ks2 ks3 e = Inr es \<and>
     (\<forall>u. names es u =
        (if ge_prs e u \<noteq> None then map_option (\<lambda>pr. formatName (prNameable pr)) (fetch cl e u)
         else ge_names e u)) \<and>
     reviewed es = {u. \<exists>pr. fetch cl e u = Some pr \<and> GetLogin pr \<noteq> user} \<and>
     inProgress es = {u. \<exists>pr. fetch cl e u = Some pr \<and> GetLogin pr = user \<and>
        GetState pr = ''open'' \<and> isWorkInProgress (Labels pr)} \<and>
     underReview es = {u. \<exists>pr. fetch cl e u = Some pr \<and> GetLogin pr = user \<and>
        GetState pr = ''open'' \<and> \<not> isWorkInProgress (Labels pr)} \<and>
     merged es = {u. \<exists>pr. fetch cl e u = Some pr \<and> GetLogin pr = user \<and>
        GetState pr = ''closed'' \<and> GetMerged pr} \<and>
     abandoned es = {u. \<exists>pr. fetch cl e u = Some pr \<and> GetLogin pr = user \<and>
        GetState pr = ''closed'' \<and> \<not> GetMerged pr} \<and>
     issues es = dom (ge_issues e)"
proof -
  have k1: "set ks1 = dom (ge_prs e)" and k2: "set ks2 = dom (ge_prs e)"
    and k3: "set ks3 = dom (ge_issues e)"
    using vr by (simp_all add: validRun_def visits_def)
  have "\<forall>u\<in>set ks1. ge_prs e u \<noteq> None \<longrightarrow> fetch cl e u \<noteq> None"
    using af by (auto simp: allFetched_def)
  from getPRsLoop_ok [OF this, of Map.empty]
  obtain e' m' where
    run: "getPRsLoop cl ks1 e Map.empty = Inr (e', m')" and
    m': "\<forall>u. m' u = (if u \<in> set ks1 \<and> ge_prs e u \<noteq> None then fetch cl e u else None)" and
    n': "\<forall>u. ge_names e' u =
           (if u \<in> set ks1 \<and> ge_prs e u \<noteq> None
            then map_option (\<lambda>pr. formatName (prNameable pr)) (fetch cl e u)
            else ge_names e u)"
    by blast
  have fm: "m' = fetch cl e"
  proof (rule ext)
    fix u
    show "m' u = fetch cl e u"
      using m' k1 by (cases "ge_prs e u") (auto simp: fetch_def)
  qed
  have inks2: "\<And>u pr. fetch cl e u = Some pr \<Longrightarrow> u \<in> set ks2"
    using k2 fetch_dom by blast
  let ?es0 = "\<lparr>names = ge_names e', merged = {}, abandoned = {}, underReview = {},
               inProgress = {}, reviewed = {}, issues = {}\<rparr>"
  let ?es = "(copyIssues ks3 (classifyAll user (fetch cl e) ks2 ?es0))\<lparr>names := ge_names e'\<rparr>"
  have res: "makeEventSets user cl ks1 ks2 ks3 e = Inr ?es"
    using run fm by (simp add: makeEventSets_def getPRs_def)
  have nm: "\<forall>u. names ?es u =
        (if ge_prs e u \<noteq> None then map_option (\<lambda>pr. formatName (prNameable pr)) (fetch cl e u)
         else ge_names e u)"
    using n' k1 by auto
  have c1: "reviewed ?es = {u. \<exists>pr. fetch cl e u = Some pr \<and> GetLogin pr \<noteq> user}"
    using inks2 by (auto simp: copyIssues_others classifyAll_reviewed)
  have c2: "inProgress ?es = {u. \<exists>pr. fetch cl e u = Some pr \<and> GetLogin pr = user \<and>
        GetState pr = ''open'' \<and> isWorkInProgress (Labels pr)}"
    using inks2 by (auto simp: copyIssues_others classifyAll_inProgress)
  have c3: "underReview ?es = {u. \<exists>pr. fetch cl e u = Some pr \<and> GetLogin pr = user \<and>
        GetState pr = ''open'' \<and> \<not> isWorkInProgress (Labels pr)}"
    using inks2 by (auto simp: copyIssues_others classifyAll_underReview)
  have c4: "merged ?es = {u. \<exists>pr. fetch cl e u = Some pr \<and> GetLogin pr = user \<and>
        GetState pr = ''closed'' \<and> GetMerged pr}"
    using inks2 by (auto simp: copyIssues_others classifyAll_merged)
  have c5: "abandoned ?es = {u. \<exists>pr. fetch cl e u = Some pr \<and> GetLogin pr = user \<and>
        GetState pr = ''closed'' \<and> \<not> GetMerged pr}"
    using inks2 by (auto simp: copyIssues_others classifyAll_abandoned)
  have c6: "issues ?es = dom (ge_issues e)"
    using k3 by (simp add: copyIssues_issues classifyAll_issues)
  show ?thesis
    using res nm c1 c2 c3 c4 c5 c6 by blast
qed

subsection \<open>Instances of the small run\<close>

lemmas ex_defs = exURL_def exStore_def exPR_def exClient_def

lemma ex_allFetched: "allFetched (exClient pr) exStore"
  by (auto simp: allFetched_def fetch_def ex_defs dom_def split: option.splits)

lemma ex_validRun: "validRun [exURL] [exURL] [] exStore"
  by (simp add: validRun_def visits_def exStore_def)

lemma ex_fetch: "fetch (exClient pr) exStore exURL = Some pr"
  by (simp add: fetch_def exStore_def exClient_def)

lemmas crack_defs = crackPRInfo_def HasPrefix_def TrimPrefix_def Atoi_def digitVal_def

lemma crack_exURL: "crackPRInfo exURL = Inr \<lparr>owner = ''o'', repo = ''r'', number = 1\<rparr>"
  by (simp add: exURL_def crack_defs)

lemma ex_overlap_reached:
  "organizeEvents [Some (IssuesEvent exIssue),
                   Some (PullRequestEvent (exPR ''someone'' ''open'' [] False))] = Inr exOverlap"
  by (simp add: organizeEvents_def addIssue_def addPR_def addName_def overrideName_def
      issueNameable_def prNameable_def formatName_def exIssue_def exPR_def exOverlap_def
      crack_exURL) (simp add: exURL_def)

lemma ex_run_unknown_state:
  "makeEventSets ''Harwayne'' (exClient (exPR ''someone'' ''draft'' [] False))
     [exURL] [exURL] [] exStore =
   Inr \<lparr>names = [exURL \<mapsto> ''[new title](https://github.com/o/r/pull/1)''],
        merged = {}, abandoned = {}, underReview = {}, inProgress = {},
        reviewed = {exURL}, issues = {}\<rparr>"
  by (simp add: makeEventSets_def getPRs_def classify_def overrideName_def formatName_def
      prNameable_def exStore_def exClient_def exPR_def) (simp add: exURL_def)

lemma ex_run_overlap:
  "makeEventSets ''Harwayne'' (exClient (exPR ''someone'' ''open'' [] False))
     [exURL] [exURL] [exURL] exOverlap =
   Inr \<lparr>names = [exURL \<mapsto> ''[new title](https://github.com/o/r/pull/1)''],
        merged = {}, abandoned = {}, underReview = {}, inProgress = {},
        reviewed = {exURL}, issues = {exURL}\<rparr>"
  by (simp add: makeEventSets_def getPRs_def classify_def overrideName_def formatName_def
      prNameable_def exOverlap_def exClient_def exPR_def) (simp add: exURL_def)

lemma ex_populated_allFetched: "allFetched (exClient pr) exPopulated"
  by (auto simp: allFetched_def fetch_def ex_defs exPopulated_def dom_def split: option.splits)

lemma ex_urls_differ: "exIssueURL \<noteq> exURL"
  by (simp add: exIssueURL_def exURL_def)

lemma ex_populated_validRun: "validRun [exURL] [exURL] [exIssueURL] exPopulated"
  using ex_urls_differ by (simp add: validRun_def visits_def exPopulated_def)

lemma ex_populated_no_overlap: "dom (ge_issues exPopulated) \<inter> dom (ge_prs exPopulated) = {}"
  using ex_urls_differ by (simp add: exPopulated_def)

lemma ex_populated_none_dropped:
  "{u. \<exists>pr. fetch (exClient (exPR ''Harwayne'' ''open'' [] False)) exPopulated u = Some pr \<and>
          GetLogin pr = ''Harwayne'' \<and> GetState pr \<noteq> ''open'' \<and> GetState pr \<noteq> ''closed''} = {}"
  by (auto simp: fetch_def exPopulated_def exClient_def exPR_def split: option.splits if_splits)

lemma ex_populated_discovered: "discovered exPopulated = {exURL, exIssueURL}"
  by (auto simp: discovered_def exPopulated_def)

lemma ex_populated_run:
  "makeEventSets ''Harwayne'' (exClient (exPR ''Harwayne'' ''open'' [] False))
     [exURL] [exURL] [exIssueURL] exPopulated =
   Inr \<lparr>names = [exURL \<mapsto> ''[new title](https://github.com/o/r/pull/1)'',
                 exIssueURL \<mapsto> ''[newer title](https://github.com/o/r/issues/2)''],
        merged = {}, abandoned = {}, underReview = {exURL}, inProgress = {},
        reviewed = {}, issues = {exIssueURL}\<rparr>"
  using ex_urls_differ
  by (simp add: makeEventSets_def getPRs_def classify_def overrideName_def formatName_def
      prNameable_def exPopulated_def exClient_def exPR_def)
     (auto simp: exURL_def exIssueURL_def)

subsection \<open>Reconciliation: the classification rules\<close>

text \<open>
  C2. A pull-request reference whose fetched author is not the acting user is placed in
  \<open>reviewed\<close>, and in no other pull-request category, whatever its fetched state,
  merged flag and labels are. The run is one in which every query succeeds (a failed
  query is fatal), visited in any order.
\<close>

theorem reviewed_precedence:
  assumes "allFetched cl e" and "validRun ks1 ks2 ks3 e"
    and "fetch cl e u = Some pr" and "GetLogin pr \<noteq> user"
  shows "\<exists>es. makeEventSets user cl ks1 ks2 ks3 e = Inr es \<and> u \<in> reviewed es \<and>
           u \<notin> merged es \<union> abandoned es \<union> underReview es \<union> inProgress es"
proof -
  from makeEventSets_ok [OF assms(1,2), of user] obtain es where
    "makeEventSets user cl ks1 ks2 ks3 e = Inr es"
    "reviewed es = {u. \<exists>pr. fetch cl e u = Some pr \<and> GetLogin pr \<noteq> user}"
    "inProgress es = {u. \<exists>pr. fetch cl e u = Some pr \<and> GetLogin pr = user \<and>
        GetState pr = ''open'' \<and> isWorkInProgress (Labels pr)}"
    "underReview es = {u. \<exists>pr. fetch cl e u = Some pr \<and> GetLogin pr = user \<and>
        GetState pr = ''open'' \<and> \<not> isWorkInProgress (Labels pr)}"
    "merged es = {u. \<exists>pr. fetch cl e u = Some pr \<and> GetLogin pr = user \<and>
        GetState pr = ''closed'' \<and> GetMerged pr}"
    "abandoned es = {u. \<exists>pr. fetch cl e u = Some pr \<and> GetLogin pr = user \<and>
        GetState pr = ''closed'' \<and> \<not> GetMerged pr}"
    by blast
  with assms(3,4) show ?thesis by auto
qed

text \<open>
  The instance: a closed, merged pull request of someone else that even carries the
  work-in-progress label is reviewed.
\<close>

theorem reviewed_precedence_witness:
  "allFetched (exClient (exPR ''someone'' ''closed'' [''do-not-merge/work-in-progress''] True)) exStore \<and>
   validRun [exURL] [exURL] [] exStore \<and>
   fetch (exClient (exPR ''someone'' ''closed'' [''do-not-merge/work-in-progress''] True)) exStore exURL
     = Some (exPR ''someone'' ''closed'' [''do-not-merge/work-in-progress''] True) \<and>
   GetLogin (exPR ''someone'' ''closed'' [''do-not-merge/work-in-progress''] True) \<noteq> ''Harwayne'' \<and>
   (\<exists>es. makeEventSets ''Harwayne''
           (exClient (exPR ''someone'' ''closed'' [''do-not-merge/work-in-progress''] True))
           [exURL] [exURL] [] exStore = Inr es \<and>
         exURL \<in> reviewed es \<and>
         exURL \<notin> merged es \<union> abandoned es \<union> underReview es \<union> inProgress es)"
proof -
  let ?pr = "exPR ''someone'' ''closed'' [''do-not-merge/work-in-progress''] True"
  have h4: "GetLogin ?pr \<noteq> ''Harwayne''"
    by (simp add: exPR_def)
  show ?thesis
    using reviewed_precedence [OF ex_allFetched ex_validRun ex_fetch h4]
      ex_allFetched [of ?pr] ex_validRun ex_fetch [of ?pr] h4
    by blast
qed

text \<open>
  C3. A pull-request reference whose fetched author is the acting user and whose fetched
  state is \<^verbatim>\<open>open\<close> is placed in \<open>inProgress\<close> when its fetched labels contain
  \<^verbatim>\<open>do-not-merge/work-in-progress\<close>, and in \<open>underReview\<close> otherwise.
\<close>

theorem wip_detection:
  assumes "allFetched cl e" and "validRun ks1 ks2 ks3 e"
    and "fetch cl e u = Some pr" and "GetLogin pr = user" and "GetState pr = ''open''"
  shows "\<exists>es. makeEventSets user cl ks1 ks2 ks3 e = Inr es \<and>
           (if ''do-not-merge/work-in-progress'' \<in> set (Labels pr)
            then u \<in> inProgress es \<and> u \<notin> underReview es
            else u \<in> underReview es \<and> u \<notin> inProgress es)"
proof -
  from makeEventSets_ok [OF assms(1,2), of user] obtain es where
    "makeEventSets user cl ks1 ks2 ks3 e = Inr es"
    "inProgress es = {u. \<exists>pr. fetch cl e u = Some pr \<and> GetLogin pr = user \<and>
        GetState pr = ''open'' \<and> isWorkInProgress (Labels pr)}"
    "underReview es = {u. \<exists>pr. fetch cl e u = Some pr \<and> GetLogin pr = user \<and>
        GetState pr = ''open'' \<and> \<not> isWorkInProgress (Labels pr)}"
    by blast
  with assms(3,4,5) show ?thesis
    by (auto simp: isWorkInProgress_iff)
qed

theorem wip_detection_witness:
  "allFetched (exClient (exPR ''Harwayne'' ''open'' [''bug'', ''do-not-merge/work-in-progress''] False)) exStore \<and>
   allFetched (exClient (exPR ''Harwayne'' ''open'' [''bug''] False)) exStore \<and>
   validRun [exURL] [exURL] [] exStore \<and>
   (\<exists>es. makeEventSets ''Harwayne''
           (exClient (exPR ''Harwayne'' ''open'' [''bug'', ''do-not-merge/work-in-progress''] False))
           [exURL] [exURL] [] exStore = Inr es \<and>
         exURL \<in> inProgress es \<and> exURL \<notin> underReview es) \<and>
   (\<exists>es. makeEventSets ''Harwayne'' (exClient (exPR ''Harwayne'' ''open'' [''bug''] False))
           [exURL] [exURL] [] exStore = Inr es \<and>
         exURL \<in> underReview es \<and> exURL \<notin> inProgress es)"
proof -
  let ?wip = "exPR ''Harwayne'' ''open'' [''bug'', ''do-not-merge/work-in-progress''] False"
  let ?rdy = "exPR ''Harwayne'' ''open'' [''bug''] False"
  have a: "GetLogin ?wip = ''Harwayne''" "GetState ?wip = ''open''"
    "''do-not-merge/work-in-progress'' \<in> set (Labels ?wip)"
    by (simp_all add: exPR_def)
  have b: "GetLogin ?rdy = ''Harwayne''" "GetState ?rdy = ''open''"
    "''do-not-merge/work-in-progress'' \<notin> set (Labels ?rdy)"
    by (simp_all add: exPR_def)
  have "\<exists>es. makeEventSets ''Harwayne'' (exClient ?wip) [exURL] [exURL] [] exStore = Inr es \<and>
         exURL \<in> inProgress es \<and> exURL \<notin> underReview es"
    using wip_detection [OF ex_allFetched ex_validRun ex_fetch a(1) a(2)] a(3) by simp
  moreover
  have "\<exists>es. makeEventSets ''Harwayne'' (exClient ?rdy) [exURL] [exURL] [] exStore = Inr es \<and>
         exURL \<in> underReview es \<and> exURL \<notin> inProgress es"
    using wip_detection [OF ex_allFetched ex_validRun ex_fetch b(1) b(2)] b(3) by simp
  ultimately show ?thesis
    using ex_allFetched [of ?wip] ex_allFetched [of ?rdy] ex_validRun by blast
qed

text \<open>
  C4. A pull-request reference whose fetched author is the acting user and whose fetched
  state is \<^verbatim>\<open>closed\<close> is placed in \<open>merged\<close> when the platform reports it merged, and
  in \<open>abandoned\<close> otherwise.
\<close>

theorem merge_resolution:
  assumes "allFetched cl e" and "validRun ks1 ks2 ks3 e"
    and "fetch cl e u = Some pr" and "GetLogin pr = user" and "GetState pr = ''closed''"
  shows "\<exists>es. makeEventSets user cl ks1 ks2 ks3 e = Inr es \<and>
           (if GetMerged pr then u \<in> merged es \<and> u \<notin> abandoned es
            else u \<in> abandoned es \<and> u \<notin> merged es)"
proof -
  from makeEventSets_ok [OF assms(1,2), of user] obtain es where
    "makeEventSets user cl ks1 ks2 ks3 e = Inr es"
    "merged es = {u. \<exists>pr. fetch cl e u = Some pr \<and> GetLogin pr = user \<and>
        GetState pr = ''closed'' \<and> GetMerged pr}"
    "abandoned es = {u. \<exists>pr. fetch cl e u = Some pr \<and> GetLogin pr = user \<and>
        GetState pr = ''closed'' \<and> \<not> GetMerged pr}"
    by blast
  with assms(3,4,5) show ?thesis
    by auto
qed

theorem merge_resolution_witness:
  "allFetched (exClient (exPR ''Harwayne'' ''closed'' [] True)) exStore \<and>
   allFetched (exClient (exPR ''Harwayne'' ''closed'' [] False)) exStore \<and>
   validRun [exURL] [exURL] [] exStore \<and>
   (\<exists>es. makeEventSets ''Harwayne'' (exClient (exPR ''Harwayne'' ''closed'' [] True))
           [exURL] [exURL] [] exStore = Inr es \<and>
         exURL \<in> merged es \<and> exURL \<notin> abandoned es) \<and>
   (\<exists>es. makeEventSets ''Harwayne'' (exClient (exPR ''Harwayne'' ''closed'' [] False))
           [exURL] [exURL] [] exStore = Inr es \<and>
         exURL \<in> abandoned es \<and> exURL \<notin> merged es)"
proof -
  let ?m = "exPR ''Harwayne'' ''closed'' [] True"
  let ?a = "exPR ''Harwayne'' ''closed'' [] False"
  have a: "GetLogin ?m = ''Harwayne''" "GetState ?m = ''closed''" "GetMerged ?m"
    by (simp_all add: exPR_def)
  have b: "GetLogin ?a = ''Harwayne''" "GetState ?a = ''closed''" "\<not> GetMerged ?a"
    by (simp_all add: exPR_def)
  have "\<exists>es. makeEventSets ''Harwayne'' (exClient ?m) [exURL] [exURL] [] exStore = Inr es \<and>
         exURL \<in> merged es \<and> exURL \<notin> abandoned es"
    using merge_resolution [OF ex_allFetched ex_validRun ex_fetch a(1) a(2)] a(3) by simp
  moreover
  have "\<exists>es. makeEventSets ''Harwayne'' (exClient ?a) [exURL] [exURL] [] exStore = Inr es \<and>
         exURL \<in> abandoned es \<and> exURL \<notin> merged es"
    using merge_resolution [OF ex_allFetched ex_validRun ex_fetch b(1) b(2)] b(3) by simp
  ultimately show ?thesis
    using ex_allFetched [of ?m] ex_allFetched [of ?a] ex_validRun by blast
qed

text \<open>
  C7. For a pull-request reference that is queried with success, the name registry of the
  result holds under its identifier the label formatted from the fetched title and the
  fetched address, whatever name discovery had stored there.
\<close>

theorem name_overwritten:
  assumes "allFetched cl e" and "validRun ks1 ks2 ks3 e" and "fetch cl e u = Some pr"
  shows "\<exists>es. makeEventSets user cl ks1 ks2 ks3 e = Inr es \<and>
           names es u = Some (''['' @ prTitle pr @ '']('' @ prHTMLURL pr @ '')'')"
proof -
  from makeEventSets_ok [OF assms(1,2), of user] obtain es where
    r: "makeEventSets user cl ks1 ks2 ks3 e = Inr es" and
    n: "\<forall>u. names es u =
        (if ge_prs e u \<noteq> None then map_option (\<lambda>pr. formatName (prNameable pr)) (fetch cl e u)
         else ge_names e u)"
    by blast
  have "ge_prs e u \<noteq> None"
    using fetch_dom [OF assms(3)] by auto
  with n assms(3) have "names es u = Some (formatName (prNameable pr))"
    by simp
  with r show ?thesis
    by (auto simp: formatName_def prNameable_def)
qed

text \<open>
  The instance: discovery had stored a label with the title \<^verbatim>\<open>old title\<close>; the result
  holds the label of the fetched title.
\<close>

theorem name_overwritten_witness:
  "allFetched (exClient (exPR ''Harwayne'' ''open'' [] False)) exStore \<and>
   validRun [exURL] [exURL] [] exStore \<and>
   fetch (exClient (exPR ''Harwayne'' ''open'' [] False)) exStore exURL
     = Some (exPR ''Harwayne'' ''open'' [] False) \<and>
   ge_names exStore exURL = Some ''[old title](https://github.com/o/r/pull/1)'' \<and>
   (\<exists>es. makeEventSets ''Harwayne'' (exClient (exPR ''Harwayne'' ''open'' [] False))
           [exURL] [exURL] [] exStore = Inr es \<and>
         names es exURL = Some ''[new title](https://github.com/o/r/pull/1)'')"
proof -
  let ?pr = "exPR ''Harwayne'' ''open'' [] False"
  have old: "ge_names exStore exURL = Some ''[old title](https://github.com/o/r/pull/1)''"
    by (simp add: exStore_def)
  have lbl: "''['' @ prTitle ?pr @ '']('' @ prHTMLURL ?pr @ '')''
               = ''[new title](https://github.com/o/r/pull/1)''"
    by (simp add: exPR_def exURL_def)
  have "\<exists>es. makeEventSets ''Harwayne'' (exClient ?pr) [exURL] [exURL] [] exStore = Inr es \<and>
          names es exURL = Some (''['' @ prTitle ?pr @ '']('' @ prHTMLURL ?pr @ '')'')"
    by (rule name_overwritten [OF ex_allFetched ex_validRun ex_fetch])
  then show ?thesis
    using ex_allFetched [of ?pr] ex_validRun ex_fetch [of ?pr] old
    unfolding lbl by blast
qed

subsection \<open>Reconciliation: the partition\<close>

text \<open>
  C1, as the code has it. In a run whose queries all succeed, on a collection in which no
  identifier is both a plain issue and a pull-request reference, the six sets of the
  result are pairwise disjoint, and their union is the set of discovered identifiers
  without the references whose fetched author is the acting user and whose fetched
  state is neither \<^verbatim>\<open>open\<close> nor \<^verbatim>\<open>closed\<close>. A reference of another author is in
  \<open>reviewed\<close> whatever its state, so it is not dropped.
\<close>

theorem partition_of_discovered:
  assumes "allFetched cl e" and "validRun ks1 ks2 ks3 e"
    and "dom (ge_issues e) \<inter> dom (ge_prs e) = {}"
  shows "\<exists>es. makeEventSets user cl ks1 ks2 ks3 e = Inr es \<and>
           pairwiseDisjoint (categories es) \<and>
           \<Union> (set (categories es)) =
             discovered e - {u. \<exists>pr. fetch cl e u = Some pr \<and> GetLogin pr = user \<and>
                                 GetState pr \<noteq> ''open'' \<and> GetState pr \<noteq> ''closed''}"
proof -
  from makeEventSets_ok [OF assms(1,2), of user] obtain es where
    r: "makeEventSets user cl ks1 ks2 ks3 e = Inr es" and
    s: "reviewed es = {u. \<exists>pr. fetch cl e u = Some pr \<and> GetLogin pr \<noteq> user}"
    "inProgress es = {u. \<exists>pr. fetch cl e u = Some pr \<and> GetLogin pr = user \<and>
        GetState pr = ''open'' \<and> isWorkInProgress (Labels pr)}"
    "underReview es = {u. \<exists>pr. fetch cl e u = Some pr \<and> GetLogin pr = user \<and>
        GetState pr = ''open'' \<and> \<not> isWorkInProgress (Labels pr)}"
    "merged es = {u. \<exists>pr. fetch cl e u = Some pr \<and> GetLogin pr = user \<and>
        GetState pr = ''closed'' \<and> GetMerged pr}"
    "abandoned es = {u. \<exists>pr. fetch cl e u = Some pr \<and> GetLogin pr = user \<and>
        GetState pr = ''closed'' \<and> \<not> GetMerged pr}"
    "issues es = dom (ge_issues e)"
    by blast
  have d: "\<And>u pr. fetch cl e u = Some pr \<Longrightarrow> u \<notin> dom (ge_issues e)"
    using assms(3) fetch_dom by blast
  have f: "\<And>u. u \<in> dom (ge_prs e) \<Longrightarrow> \<exists>pr. fetch cl e u = Some pr"
    using assms(1) by (auto simp: allFetched_def)
  have disj: "pairwiseDisjoint (categories es)"
    unfolding categories_def s using d by auto
  have "\<Union> (set (categories es)) \<subseteq>
             discovered e - {u. \<exists>pr. fetch cl e u = Some pr \<and> GetLogin pr = user \<and>
                                 GetState pr \<noteq> ''open'' \<and> GetState pr \<noteq> ''closed''}"
    unfolding categories_def discovered_def s using d by (auto dest: fetch_dom)
  moreover have "discovered e - {u. \<exists>pr. fetch cl e u = Some pr \<and> GetLogin pr = user \<and>
                                 GetState pr \<noteq> ''open'' \<and> GetState pr \<noteq> ''closed''}
           \<subseteq> \<Union> (set (categories es))"
  proof
    fix u
    assume u: "u \<in> discovered e - {u. \<exists>pr. fetch cl e u = Some pr \<and> GetLogin pr = user \<and>
                                 GetState pr \<noteq> ''open'' \<and> GetState pr \<noteq> ''closed''}"
    show "u \<in> \<Union> (set (categories es))"
    proof (cases "u \<in> dom (ge_issues e)")
      case True
      then show ?thesis by (simp add: categories_def s)
    next
      case False
      with u have "u \<in> dom (ge_prs e)" by (simp add: discovered_def)
      then obtain pr where pr: "fetch cl e u = Some pr" using f by blast
      with u have "\<not> (GetLogin pr = user \<and> GetState pr \<noteq> ''open'' \<and> GetState pr \<noteq> ''closed'')"
        by auto
      with pr show ?thesis
        unfolding categories_def s by auto
    qed
  qed
  ultimately show ?thesis using r disj by blast
qed

text \<open>
  The instance: a collection with one pull request of the acting user, fetched open and
  without labels, and one plain issue. The pull request is under review, the issue is in
  \<open>issues\<close>, and the union is the two identifiers.
\<close>

theorem partition_of_discovered_witness:
  "allFetched (exClient (exPR ''Harwayne'' ''open'' [] False)) exPopulated \<and>
   validRun [exURL] [exURL] [exIssueURL] exPopulated \<and>
   dom (ge_issues exPopulated) \<inter> dom (ge_prs exPopulated) = {} \<and>
   (\<exists>es. makeEventSets ''Harwayne'' (exClient (exPR ''Harwayne'' ''open'' [] False))
           [exURL] [exURL] [exIssueURL] exPopulated = Inr es \<and>
         pairwiseDisjoint (categories es) \<and>
         \<Union> (set (categories es)) = {exURL, exIssueURL}) \<and>
   makeEventSets ''Harwayne'' (exClient (exPR ''Harwayne'' ''open'' [] False))
     [exURL] [exURL] [exIssueURL] exPopulated =
   Inr \<lparr>names = [exURL \<mapsto> ''[new title](https://github.com/o/r/pull/1)'',
                 exIssueURL \<mapsto> ''[newer title](https://github.com/o/r/issues/2)''],
        merged = {}, abandoned = {}, underReview = {exURL}, inProgress = {},
        reviewed = {}, issues = {exIssueURL}\<rparr>"
proof -
  let ?cl = "exClient (exPR ''Harwayne'' ''open'' [] False)"
  have "\<exists>es. makeEventSets ''Harwayne'' ?cl [exURL] [exURL] [exIssueURL] exPopulated = Inr es \<and>
           pairwiseDisjoint (categories es) \<and>
           \<Union> (set (categories es)) =
             discovered exPopulated -
               {u. \<exists>pr. fetch ?cl exPopulated u = Some pr \<and> GetLogin pr = ''Harwayne'' \<and>
                      GetState pr \<noteq> ''open'' \<and> GetState pr \<noteq> ''closed''}"
    by (rule partition_of_discovered
          [OF ex_populated_allFetched ex_populated_validRun ex_populated_no_overlap])
  then have "\<exists>es. makeEventSets ''Harwayne'' ?cl [exURL] [exURL] [exIssueURL] exPopulated = Inr es \<and>
           pairwiseDisjoint (categories es) \<and>
           \<Union> (set (categories es)) = {exURL, exIssueURL}"
    unfolding ex_populated_none_dropped ex_populated_discovered by simp
  then show ?thesis
    using ex_populated_allFetched [of "exPR ''Harwayne'' ''open'' [] False"]
      ex_populated_validRun ex_populated_no_overlap ex_populated_run
    by (intro conjI)
qed

text \<open>
  The claim as it is written fails in two ways. A reference of another author whose
  fetched state is neither \<^verbatim>\<open>open\<close> nor \<^verbatim>\<open>closed\<close> is in \<open>reviewed\<close>, so it is in the
  union. And discovery can store one address both as a plain issue and as a
  pull-request reference; it is then in \<open>issues\<close> and in a pull-request set.
\<close>

theorem partition_as_claimed_counterexample:
  "fetch (exClient (exPR ''someone'' ''draft'' [] False)) exStore exURL
     = Some (exPR ''someone'' ''draft'' [] False) \<and>
   GetState (exPR ''someone'' ''draft'' [] False) \<noteq> ''open'' \<and>
   GetState (exPR ''someone'' ''draft'' [] False) \<noteq> ''closed'' \<and>
   makeEventSets ''Harwayne'' (exClient (exPR ''someone'' ''draft'' [] False))
     [exURL] [exURL] [] exStore =
   Inr \<lparr>names = [exURL \<mapsto> ''[new title](https://github.com/o/r/pull/1)''],
        merged = {}, abandoned = {}, underReview = {}, inProgress = {},
        reviewed = {exURL}, issues = {}\<rparr> \<and>
   organizeEvents [Some (IssuesEvent exIssue),
                   Some (PullRequestEvent (exPR ''someone'' ''open'' [] False))] = Inr exOverlap \<and>
   makeEventSets ''Harwayne'' (exClient (exPR ''someone'' ''open'' [] False))
     [exURL] [exURL] [exURL] exOverlap =
   Inr \<lparr>names = [exURL \<mapsto> ''[new title](https://github.com/o/r/pull/1)''],
        merged = {}, abandoned = {}, underReview = {}, inProgress = {},
        reviewed = {exURL}, issues = {exURL}\<rparr>"
  using ex_fetch [of "exPR ''someone'' ''draft'' [] False"] ex_run_unknown_state
    ex_overlap_reached ex_run_overlap
  by (simp add: exPR_def)

subsection \<open>Discovery: the name registry\<close>

lemma addName_snd: "snd (addName e n) = GetHTMLURL n"
  by (simp add: addName_def Let_def)

lemma addName_names:
  "ge_names (fst (addName e n)) =
     (if ge_names e (GetHTMLURL n) = None then (ge_names e)(GetHTMLURL n \<mapsto> formatName n)
      else ge_names e)"
  by (simp add: addName_def overrideName_def Let_def)

lemma addIssue_names:
  "addIssue e i = Inr e' \<Longrightarrow> ge_names e' = ge_names (fst (addName e (issueNameable i)))"
  by (cases "addName e (issueNameable i)")
     (auto simp: addIssue_def split: if_splits sum.splits)

lemma addPR_names:
  "addPR e pr = Inr e' \<Longrightarrow> ge_names e' = ge_names (fst (addName e (prNameable pr)))"
  by (cases "addName e (prNameable pr)")
     (auto simp: addPR_def split: if_splits sum.splits)

lemma route_names:
  "route ge p = Inr ge' \<Longrightarrow>
   ge_names ge' =
     (case eventItem p of
        None \<Rightarrow> ge_names ge
      | Some n \<Rightarrow>
          if ge_names ge (GetHTMLURL n) = None then (ge_names ge)(GetHTMLURL n \<mapsto> formatName n)
          else ge_names ge)"
  by (cases p) (auto simp: addName_names dest!: addIssue_names addPR_names)

lemma route_keeps:
  "route ge p = Inr ge' \<Longrightarrow> ge_names ge u = Some x \<Longrightarrow> ge_names ge' u = Some x"
  by (drule route_names) (auto split: option.splits if_splits)

lemma routeAll_keeps:
  "routeAll ge ps = Inr ge' \<Longrightarrow> ge_names ge u = Some x \<Longrightarrow> ge_names ge' u = Some x"
proof (induction ps arbitrary: ge)
  case Nil
  then show ?case by simp
next
  case (Cons p ps)
  from Cons.prems(1) obtain ge1 where
    s: "route ge p = Inr ge1" and r: "routeAll ge1 ps = Inr ge'"
    by (auto split: sum.splits)
  from route_keeps [OF s Cons.prems(2)] have "ge_names ge1 u = Some x" .
  from Cons.IH [OF r this] show ?case .
qed

lemma parseAll_Some:
  "parseAll (Some p # rest) = Inr ps \<Longrightarrow> \<exists>qs. ps = p # qs"
  by (auto split: sum.splits)

lemma parseAll_map_Some: "parseAll es = Inr ps \<Longrightarrow> es = map Some ps"
proof (induction es arbitrary: ps)
  case Nil
  then show ?case by simp
next
  case (Cons a es)
  show ?case
  proof (cases a)
    case None
    with Cons.prems show ?thesis by simp
  next
    case (Some p)
    with Cons.prems obtain qs where q: "parseAll es = Inr qs" and ps: "ps = p # qs"
      by (auto split: sum.splits)
    from Cons.IH [OF q] Some ps show ?thesis by simp
  qed
qed

lemma routeAll_append:
  "routeAll ge (xs @ ys) =
     (case routeAll ge xs of Inl err \<Rightarrow> Inl err | Inr ge1 \<Rightarrow> routeAll ge1 ys)"
  by (induction xs arbitrary: ge) (auto split: sum.splits)

lemma route_other:
  "route ge p = Inr ge' \<Longrightarrow> \<not> refersTo u (Some p) \<Longrightarrow> ge_names ge' u = ge_names ge u"
  by (drule route_names) (auto simp: refersTo_def split: option.splits if_splits)

lemma routeAll_other:
  "routeAll ge ps = Inr ge' \<Longrightarrow> \<forall>q\<in>set ps. \<not> refersTo u (Some q) \<Longrightarrow>
     ge_names ge' u = ge_names ge u"
proof (induction ps arbitrary: ge)
  case Nil
  then show ?case by simp
next
  case (Cons p ps)
  from Cons.prems(1) obtain ge1 where
    s: "route ge p = Inr ge1" and r: "routeAll ge1 ps = Inr ge'"
    by (auto split: sum.splits)
  have "ge_names ge1 u = ge_names ge u"
    using route_other [OF s] Cons.prems(2) by simp
  moreover have "ge_names ge' u = ge_names ge1 u"
    using Cons.IH [OF r] Cons.prems(2) by simp
  ultimately show ?case by simp
qed

lemma routeAll_first_seen:
  assumes run: "routeAll ge (pre @ p # rest) = Inr ge'"
    and item: "eventItem p = Some n"
    and before: "\<forall>q\<in>set pre. \<not> refersTo (GetHTMLURL n) (Some q)"
    and absent: "ge_names ge (GetHTMLURL n) = None"
  shows "ge_names ge' (GetHTMLURL n) = Some (formatName n)"
proof -
  from run obtain ge1 where r1: "routeAll ge pre = Inr ge1" and
    r2: "routeAll ge1 (p # rest) = Inr ge'"
    by (auto simp: routeAll_append split: sum.splits)
  from r2 obtain ge2 where s: "route ge1 p = Inr ge2" and r3: "routeAll ge2 rest = Inr ge'"
    by (auto split: sum.splits)
  have "ge_names ge1 (GetHTMLURL n) = None"
    using routeAll_other [OF r1 before] absent by simp
  with route_names [OF s] item have "ge_names ge2 (GetHTMLURL n) = Some (formatName n)"
    by simp
  from routeAll_keeps [OF r3 this] show ?thesis .
qed

lemma ex_populated_discovery:
  "organizeEvents ([Some PushEvent, Some (PullRequestEvent (exPR ''someone'' ''open'' [] False))]
      @ Some (IssuesEvent exNewer) # [Some (IssueCommentEvent exOlder)]) = Inr exPopulated"
  by (simp add: organizeEvents_def addIssue_def addPR_def addName_def overrideName_def
      issueNameable_def prNameable_def formatName_def exNewer_def exOlder_def exPR_def
      exPopulated_def crack_exURL)
     (simp add: exIssueURL_def exURL_def)

text \<open>
  C5. When discovery succeeds on a sequence of events, the name registered for an
  identifier is the label built from the title of the first event that refers to it:
  the events before it refer to other identifiers or to none, and the events after it,
  whatever they are, do not change the name, also when they refer to the same
  identifier with other titles. An identifier that no event refers to has no name. And
  \<^verbatim>\<open>addName\<close> changes nothing when the identifier already has a name, and stores
  the label of its argument when it has none.
\<close>

theorem first_seen_wins:
  "(organizeEvents (pre @ Some p # rest) = Inr ge \<and> eventItem p = Some n \<and>
      (\<forall>q\<in>set pre. \<not> refersTo (GetHTMLURL n) q) \<longrightarrow>
    ge_names ge (GetHTMLURL n) = Some (''['' @ GetTitle n @ '']('' @ GetHTMLURL n @ '')'')) \<and>
   (organizeEvents events = Inr ge \<and> (\<forall>q\<in>set events. \<not> refersTo u q) \<longrightarrow>
    ge_names ge u = None) \<and>
   (ge_names e (GetHTMLURL m) \<noteq> None \<longrightarrow> addName e m = (e, GetHTMLURL m)) \<and>
   (ge_names e (GetHTMLURL m) = None \<longrightarrow>
    addName e m =
      (e\<lparr>ge_names := (ge_names e)(GetHTMLURL m \<mapsto>
            ''['' @ GetTitle m @ '']('' @ GetHTMLURL m @ '')'')\<rparr>, GetHTMLURL m))"
proof (intro conjI impI)
  let ?ge0 = "\<lparr>ge_names = Map.empty, ge_issues = Map.empty, ge_prs = Map.empty\<rparr>"
  assume a: "organizeEvents (pre @ Some p # rest) = Inr ge \<and> eventItem p = Some n \<and>
      (\<forall>q\<in>set pre. \<not> refersTo (GetHTMLURL n) q)"
  then obtain ps where p1: "parseAll (pre @ Some p # rest) = Inr ps" and
    r: "routeAll ?ge0 ps = Inr ge"
    by (auto simp: organizeEvents_def split: sum.splits)
  from parseAll_map_Some [OF p1] have "map Some ps = pre @ Some p # rest" by simp
  then obtain pre' rest' where ps: "ps = pre' @ p # rest'" and pre: "pre = map Some pre'"
    by (auto simp: map_eq_append_conv map_eq_Cons_conv)
  have before: "\<forall>q\<in>set pre'. \<not> refersTo (GetHTMLURL n) (Some q)"
    using a pre by simp
  have "ge_names ge (GetHTMLURL n) = Some (formatName n)"
    by (rule routeAll_first_seen [OF r [unfolded ps] _ before]) (use a in simp_all)
  then show "ge_names ge (GetHTMLURL n) = Some (''['' @ GetTitle n @ '']('' @ GetHTMLURL n @ '')'')"
    by (simp add: formatName_def)
next
  let ?ge0 = "\<lparr>ge_names = Map.empty, ge_issues = Map.empty, ge_prs = Map.empty\<rparr>"
  assume a: "organizeEvents events = Inr ge \<and> (\<forall>q\<in>set events. \<not> refersTo u q)"
  then obtain ps where p1: "parseAll events = Inr ps" and r: "routeAll ?ge0 ps = Inr ge"
    by (auto simp: organizeEvents_def split: sum.splits)
  from parseAll_map_Some [OF p1] a have "\<forall>q\<in>set ps. \<not> refersTo u (Some q)"
    by simp
  from routeAll_other [OF r this] show "ge_names ge u = None"
    by simp
next
  assume "ge_names e (GetHTMLURL m) \<noteq> None"
  then show "addName e m = (e, GetHTMLURL m)"
    by (auto simp: addName_def Let_def)
next
  assume "ge_names e (GetHTMLURL m) = None"
  then show "addName e m =
      (e\<lparr>ge_names := (ge_names e)(GetHTMLURL m \<mapsto>
            ''['' @ GetTitle m @ '']('' @ GetHTMLURL m @ '')'')\<rparr>, GetHTMLURL m)"
    by (simp add: addName_def Let_def overrideName_def formatName_def)
qed

text \<open>
  The instance: a push and a pull-request event, then two events about one issue with the
  titles \<^verbatim>\<open>newer title\<close> and \<^verbatim>\<open>older title\<close> in this order; the registered name of the
  issue has the first title.
\<close>

theorem first_seen_wins_witness:
  "organizeEvents ([Some PushEvent, Some (PullRequestEvent (exPR ''someone'' ''open'' [] False))]
      @ Some (IssuesEvent exNewer) # [Some (IssueCommentEvent exOlder)]) = Inr exPopulated \<and>
   eventItem (IssuesEvent exNewer) = Some (issueNameable exNewer) \<and>
   \<not> refersTo exIssueURL (Some PushEvent) \<and>
   \<not> refersTo exIssueURL (Some (PullRequestEvent (exPR ''someone'' ''open'' [] False))) \<and>
   ge_names exPopulated exIssueURL = Some ''[newer title](https://github.com/o/r/issues/2)'' \<and>
   \<not> refersTo ''https://github.com/o/r/issues/3'' (Some PushEvent) \<and>
   \<not> refersTo ''https://github.com/o/r/issues/3''
       (Some (PullRequestEvent (exPR ''someone'' ''open'' [] False))) \<and>
   \<not> refersTo ''https://github.com/o/r/issues/3'' (Some (IssuesEvent exNewer)) \<and>
   \<not> refersTo ''https://github.com/o/r/issues/3'' (Some (IssueCommentEvent exOlder)) \<and>
   ge_names exPopulated ''https://github.com/o/r/issues/3'' = None \<and>
   addName exPopulated (issueNameable exOlder) = (exPopulated, exIssueURL) \<and>
   ge_names exStore exIssueURL = None \<and>
   addName exStore (issueNameable exOlder) =
     (exStore\<lparr>ge_names := (ge_names exStore)(exIssueURL \<mapsto>
        ''[older title](https://github.com/o/r/issues/2)'')\<rparr>, exIssueURL)"
proof -
  let ?pre = "[Some PushEvent, Some (PullRequestEvent (exPR ''someone'' ''open'' [] False))]"
  let ?rest = "[Some (IssueCommentEvent exOlder)]"
  let ?u3 = "''https://github.com/o/r/issues/3''"
  have u: "GetHTMLURL (issueNameable exNewer) = exIssueURL"
    "GetHTMLURL (issueNameable exOlder) = exIssueURL"
    "GetTitle (issueNameable exNewer) = ''newer title''"
    "GetTitle (issueNameable exOlder) = ''older title''"
    by (simp_all add: issueNameable_def exNewer_def exOlder_def)
  have item: "eventItem (IssuesEvent exNewer) = Some (issueNameable exNewer)"
    by simp
  have r1: "\<not> refersTo exIssueURL (Some PushEvent)"
    "\<not> refersTo exIssueURL (Some (PullRequestEvent (exPR ''someone'' ''open'' [] False)))"
    by (simp_all add: refersTo_def prNameable_def exPR_def exURL_def exIssueURL_def)
  have r3: "\<not> refersTo ?u3 (Some PushEvent)"
    "\<not> refersTo ?u3 (Some (PullRequestEvent (exPR ''someone'' ''open'' [] False)))"
    "\<not> refersTo ?u3 (Some (IssuesEvent exNewer))"
    "\<not> refersTo ?u3 (Some (IssueCommentEvent exOlder))"
    by (simp_all add: refersTo_def prNameable_def issueNameable_def exPR_def exNewer_def
        exOlder_def exURL_def exIssueURL_def)
  have before: "\<forall>q\<in>set ?pre. \<not> refersTo (GetHTMLURL (issueNameable exNewer)) q"
    using r1 by (simp add: u)
  have none: "\<forall>q\<in>set (?pre @ Some (IssuesEvent exNewer) # ?rest). \<not> refersTo ?u3 q"
    using r3 by simp
  have present: "ge_names exPopulated (GetHTMLURL (issueNameable exOlder)) \<noteq> None"
    by (simp add: u exPopulated_def)
  have absent: "ge_names exStore (GetHTMLURL (issueNameable exOlder)) = None"
    by (simp add: u exStore_def exURL_def exIssueURL_def)
  have c1: "ge_names exPopulated (GetHTMLURL (issueNameable exNewer)) =
      Some (''['' @ GetTitle (issueNameable exNewer) @ '']('' @
            GetHTMLURL (issueNameable exNewer) @ '')'')"
    by (rule first_seen_wins [THEN conjunct1, THEN mp,
          OF conjI [OF ex_populated_discovery conjI [OF item before]]])
  have c2: "ge_names exPopulated ?u3 = None"
    by (rule first_seen_wins [THEN conjunct2, THEN conjunct1, THEN mp,
          OF conjI [OF ex_populated_discovery none]])
  have c3: "addName exPopulated (issueNameable exOlder) =
      (exPopulated, GetHTMLURL (issueNameable exOlder))"
    by (rule first_seen_wins [THEN conjunct2, THEN conjunct2, THEN conjunct1, THEN mp,
          OF present])
  have c4: "addName exStore (issueNameable exOlder) =
      (exStore\<lparr>ge_names := (ge_names exStore)(GetHTMLURL (issueNameable exOlder) \<mapsto>
          ''['' @ GetTitle (issueNameable exOlder) @ '']('' @
          GetHTMLURL (issueNameable exOlder) @ '')'')\<rparr>,
       GetHTMLURL (issueNameable exOlder))"
    by (rule first_seen_wins [THEN conjunct2, THEN conjunct2, THEN conjunct2, THEN mp,
          OF absent])
  have l1: "''['' @ ''newer title'' @ '']('' @ exIssueURL @ '')''
              = ''[newer title](https://github.com/o/r/issues/2)''"
    and l2: "''['' @ ''older title'' @ '']('' @ exIssueURL @ '')''
              = ''[older title](https://github.com/o/r/issues/2)''"
    by (simp_all add: exIssueURL_def)
  show ?thesis
    using ex_populated_discovery item r1 r3 c1 c2 c3 c4 absent
    unfolding u l1 l2 by (intro conjI)
qed

subsection \<open>Pull-request URL decomposition\<close>

lemma HasPrefix_iff: "HasPrefix s p \<longleftrightarrow> (\<exists>r. s = p @ r)"
proof
  assume "HasPrefix s p"
  then have "s = p @ drop (length p) s"
    by (metis HasPrefix_def append_take_drop_id)
  then show "\<exists>r. s = p @ r" ..
next
  assume "\<exists>r. s = p @ r"
  then show "HasPrefix s p" by (auto simp: HasPrefix_def)
qed

lemma TrimPrefix_append [simp]: "TrimPrefix (p @ r) p = r"
  by (simp add: TrimPrefix_def HasPrefix_def)

lemma Split_nonempty [simp]: "Split s c \<noteq> []"
  by (induction s) (auto split: list.splits)

lemma Split_no_sep: "c \<notin> set a \<Longrightarrow> Split a c = [a]"
  by (induction a) auto

lemma Split_append: "c \<notin> set a \<Longrightarrow> Split (a @ c # b) c = a # Split b c"
  by (induction a) auto

lemma Split_Cons_D:
  "Split s c = x # xs \<Longrightarrow>
     c \<notin> set x \<and> (if xs = [] then s = x else \<exists>t. s = x @ c # t \<and> Split t c = xs)"
proof (induction s arbitrary: x xs)
  case Nil
  then show ?case by auto
next
  case (Cons a s)
  show ?case
  proof (cases "a = c")
    case True
    with Cons.prems have "x = []" "xs = Split s c" by auto
    with True show ?thesis by auto
  next
    case False
    with Cons.prems obtain y where y: "Split s c = y # xs" and x: "x = a # y"
      by (auto split: list.splits)
    from Cons.IH [OF y] x False show ?thesis by auto
  qed
qed

lemma digitVal_slash [simp]: "digitVal (CHR ''/'') = None"
  by (simp add: digitVal_def)

lemma parseDigits_no_slash:
  "parseDigits acc ds = Some n \<Longrightarrow> CHR ''/'' \<notin> set ds"
  by (induction ds arbitrary: acc) (auto split: option.splits)

lemma Atoi_no_slash: "Atoi s = Some n \<Longrightarrow> CHR ''/'' \<notin> set s"
proof -
  assume a: "Atoi s = Some n"
  then obtain c cs where s: "s = c # cs" by (cases s) (auto simp: Atoi_def)
  let ?ds = "if c = CHR ''-'' \<or> c = CHR ''+'' then cs else s"
  from a s obtain k where "parseDigits 0 ?ds = Some k"
    by (auto simp: Atoi_def Let_def split: if_splits option.splits)
  then have "CHR ''/'' \<notin> set ?ds" by (rule parseDigits_no_slash)
  with s show ?thesis by (auto split: if_splits)
qed

lemma Split_four:
  assumes "CHR ''/'' \<notin> set a" "CHR ''/'' \<notin> set b" "CHR ''/'' \<notin> set k" "CHR ''/'' \<notin> set d"
    and "rest = [] \<or> hd rest = CHR ''/''"
  shows "\<exists>more. Split (a @ ''/'' @ b @ ''/'' @ k @ ''/'' @ d @ rest) (CHR ''/'') = a # b # k # d # more"
proof (cases rest)
  case Nil
  then show ?thesis using assms(1-4) by (simp add: Split_append Split_no_sep)
next
  case (Cons r rs)
  with assms(5) have "rest = CHR ''/'' # rs" by simp
  then show ?thesis using assms(1-4) by (simp add: Split_append)
qed

lemma Split_four_D:
  assumes "4 \<le> length (Split s (CHR ''/''))"
  shows "\<exists>a b k d rest. s = a @ ''/'' @ b @ ''/'' @ k @ ''/'' @ d @ rest \<and>
           CHR ''/'' \<notin> set a \<and> CHR ''/'' \<notin> set b \<and> CHR ''/'' \<notin> set k \<and> CHR ''/'' \<notin> set d \<and>
           (rest = [] \<or> hd rest = CHR ''/'') \<and>
           Split s (CHR ''/'') ! 0 = a \<and> Split s (CHR ''/'') ! 1 = b \<and> Split s (CHR ''/'') ! 3 = d"
proof -
  from assms obtain a b k d more where sp: "Split s (CHR ''/'') = a # b # k # d # more"
    by (cases "Split s (CHR ''/'')" rule: list.exhaust;
        simp; metis (no_types) Suc_le_length_iff numeral_3_eq_3 One_nat_def
          Suc_le_mono length_Cons list.size(3) not_less_eq_eq le0 neq_Nil_conv)
  from Split_Cons_D [OF sp] obtain t1 where
    a: "CHR ''/'' \<notin> set a" and s1: "s = a @ CHR ''/'' # t1" and sp1: "Split t1 (CHR ''/'') = b # k # d # more"
    by auto
  from Split_Cons_D [OF sp1] obtain t2 where
    b: "CHR ''/'' \<notin> set b" and s2: "t1 = b @ CHR ''/'' # t2" and sp2: "Split t2 (CHR ''/'') = k # d # more"
    by auto
  from Split_Cons_D [OF sp2] obtain t3 where
    k: "CHR ''/'' \<notin> set k" and s3: "t2 = k @ CHR ''/'' # t3" and sp3: "Split t3 (CHR ''/'') = d # more"
    by auto
  from Split_Cons_D [OF sp3] obtain rest where
    d: "CHR ''/'' \<notin> set d" and s4: "t3 = d @ rest" and r: "rest = [] \<or> hd rest = CHR ''/''"
    by (cases "more = []") auto
  have "s = a @ ''/'' @ b @ ''/'' @ k @ ''/'' @ d @ rest"
    using s1 s2 s3 s4 by simp
  with a b k d r sp show ?thesis by auto
qed

lemma four_elems: "4 \<le> length xs \<Longrightarrow> \<exists>a b k d more. xs = a # b # k # d # more"
  by (auto simp: numeral_eq_Suc Suc_le_length_iff)

lemma HasPrefix_append [simp]: "HasPrefix (p @ r) p"
  by (simp add: HasPrefix_def)

lemma crackPRInfo_prefix:
  "crackPRInfo (''https://github.com/'' @ rest) =
     (if length (Split rest (CHR ''/'')) < 4 then Inl (IncorrectSplits rest)
      else (case Atoi (Split rest (CHR ''/'') ! 3) of
              None \<Rightarrow> Inl (UnparsableFourthSplit rest)
            | Some n \<Rightarrow> Inr \<lparr>owner = Split rest (CHR ''/'') ! 0,
                             repo = Split rest (CHR ''/'') ! 1, number = n\<rparr>))"
proof -
  have p: "HasPrefix (''https://github.com/'' @ rest) ''https://github.com/''"
    by (rule HasPrefix_append)
  have t: "TrimPrefix (''https://github.com/'' @ rest) ''https://github.com/'' = rest"
    by (rule TrimPrefix_append)
  show ?thesis
    unfolding crackPRInfo_def Let_def using p t by (simp only: not_True_eq_False if_False)
qed

lemma crackPRInfo_no_prefix:
  "\<not> HasPrefix u ''https://github.com/'' \<Longrightarrow> crackPRInfo u = Inl (BadPrefix u)"
  by (simp add: crackPRInfo_def)

lemma crackPRInfo_segments:
  "crackPRInfo u = Inr r \<longleftrightarrow>
     (\<exists>rest n. u = ''https://github.com/'' @ rest \<and> 4 \<le> length (Split rest (CHR ''/'')) \<and>
        Atoi (Split rest (CHR ''/'') ! 3) = Some n \<and>
        r = \<lparr>owner = Split rest (CHR ''/'') ! 0, repo = Split rest (CHR ''/'') ! 1, number = n\<rparr>)"
proof (cases "HasPrefix u ''https://github.com/''")
  case False
  then have "\<not> (\<exists>rest. u = ''https://github.com/'' @ rest)"
    by (simp add: HasPrefix_iff)
  with crackPRInfo_no_prefix [OF False] show ?thesis by auto
next
  case True
  then obtain rest where u: "u = ''https://github.com/'' @ rest"
    unfolding HasPrefix_iff by blast
  show ?thesis
    unfolding u crackPRInfo_prefix
    by (auto split: option.splits)
qed

lemma crackPRInfo_structure:
  assumes "CHR ''/'' \<notin> set own" "CHR ''/'' \<notin> set rp" "CHR ''/'' \<notin> set kind"
    and "rest = [] \<or> hd rest = CHR ''/''" and "Atoi num = Some n"
  shows "crackPRInfo (''https://github.com/'' @ own @ ''/'' @ rp @ ''/'' @ kind @ ''/'' @ num @ rest)
           = Inr \<lparr>owner = own, repo = rp, number = n\<rparr>"
proof -
  from Split_four [OF assms(1-3) Atoi_no_slash [OF assms(5)] assms(4)]
  obtain more where
    "Split (own @ ''/'' @ rp @ ''/'' @ kind @ ''/'' @ num @ rest) (CHR ''/'') = own # rp # kind # num # more"
    by blast
  then show ?thesis
    using assms(5) by (simp only: crackPRInfo_prefix) simp
qed

lemma Join_five:
  "Join (a # b # k # d # trail) ''/'' =
     a @ ''/'' @ b @ ''/'' @ k @ ''/'' @ d @ (if trail = [] then [] else ''/'' @ Join trail ''/'')"
  by (cases trail) simp_all

text \<open>
  C6, as the code has it. \<^verbatim>\<open>crackPRInfo\<close> succeeds exactly when the string begins with
  \<^verbatim>\<open>https://github.com/\<close>, the remainder splits at \<^verbatim>\<open>/\<close> into at least four segments
  and \<^verbatim>\<open>strconv.Atoi\<close> accepts the fourth segment: an optionally signed decimal integer
  in the range of \<^verbatim>\<open>int\<close>, positive or not. It then returns the first segment as owner,
  the second as repository and the parsed fourth as number. The second equivalence says
  the same on the string itself, without \<open>Split\<close>. In every other case the result is a
  fatal error. The address \<^verbatim>\<open>https://github.com/ownerX/repoY/pull/42\<close> yields owner
  \<^verbatim>\<open>ownerX\<close>, repository \<^verbatim>\<open>repoY\<close> and number 42.
\<close>

theorem crackPRInfo_succeeds_iff:
  "(crackPRInfo u = Inr r \<longleftrightarrow>
      (\<exists>rest n. u = ''https://github.com/'' @ rest \<and> 4 \<le> length (Split rest (CHR ''/'')) \<and>
         Atoi (Split rest (CHR ''/'') ! 3) = Some n \<and>
         r = \<lparr>owner = Split rest (CHR ''/'') ! 0, repo = Split rest (CHR ''/'') ! 1,
              number = n\<rparr>)) \<and>
   (crackPRInfo u = Inr r \<longleftrightarrow>
      (\<exists>own rp kind num rest n.
         u = ''https://github.com/'' @ own @ ''/'' @ rp @ ''/'' @ kind @ ''/'' @ num @ rest \<and>
         CHR ''/'' \<notin> set own \<and> CHR ''/'' \<notin> set rp \<and> CHR ''/'' \<notin> set kind \<and>
         (rest = [] \<or> hd rest = CHR ''/'') \<and> Atoi num = Some n \<and>
         r = \<lparr>owner = own, repo = rp, number = n\<rparr>)) \<and>
   ((\<forall>r'. crackPRInfo u \<noteq> Inr r') \<longrightarrow> (\<exists>err. crackPRInfo u = Inl err)) \<and>
   crackPRInfo ''https://github.com/ownerX/repoY/pull/42''
     = Inr \<lparr>owner = ''ownerX'', repo = ''repoY'', number = 42\<rparr>"
proof (intro conjI)
  show "crackPRInfo u = Inr r \<longleftrightarrow>
      (\<exists>rest n. u = ''https://github.com/'' @ rest \<and> 4 \<le> length (Split rest (CHR ''/'')) \<and>
         Atoi (Split rest (CHR ''/'') ! 3) = Some n \<and>
         r = \<lparr>owner = Split rest (CHR ''/'') ! 0, repo = Split rest (CHR ''/'') ! 1,
              number = n\<rparr>)"
    by (rule crackPRInfo_segments)
next
  show "crackPRInfo u = Inr r \<longleftrightarrow>
      (\<exists>own rp kind num rest n.
         u = ''https://github.com/'' @ own @ ''/'' @ rp @ ''/'' @ kind @ ''/'' @ num @ rest \<and>
         CHR ''/'' \<notin> set own \<and> CHR ''/'' \<notin> set rp \<and> CHR ''/'' \<notin> set kind \<and>
         (rest = [] \<or> hd rest = CHR ''/'') \<and> Atoi num = Some n \<and>
         r = \<lparr>owner = own, repo = rp, number = n\<rparr>)" (is "?L \<longleftrightarrow> ?R")
  proof
    assume ?L
    then obtain s n where u: "u = ''https://github.com/'' @ s" and
      len: "4 \<le> length (Split s (CHR ''/''))" and
      at: "Atoi (Split s (CHR ''/'') ! 3) = Some n" and
      r: "r = \<lparr>owner = Split s (CHR ''/'') ! 0, repo = Split s (CHR ''/'') ! 1, number = n\<rparr>"
      unfolding crackPRInfo_segments by blast
    from Split_four_D [OF len] obtain a b k d rest where
      "s = a @ ''/'' @ b @ ''/'' @ k @ ''/'' @ d @ rest"
      "CHR ''/'' \<notin> set a" "CHR ''/'' \<notin> set b" "CHR ''/'' \<notin> set k"
      "rest = [] \<or> hd rest = CHR ''/''"
      "Split s (CHR ''/'') ! 0 = a" "Split s (CHR ''/'') ! 1 = b" "Split s (CHR ''/'') ! 3 = d"
      by blast
    with u at r
    have "u = ''https://github.com/'' @ a @ ''/'' @ b @ ''/'' @ k @ ''/'' @ d @ rest \<and>
         CHR ''/'' \<notin> set a \<and> CHR ''/'' \<notin> set b \<and> CHR ''/'' \<notin> set k \<and>
         (rest = [] \<or> hd rest = CHR ''/'') \<and> Atoi d = Some n \<and>
         r = \<lparr>owner = a, repo = b, number = n\<rparr>"
      by simp
    then show ?R
      by (intro exI [of _ a] exI [of _ b] exI [of _ k] exI [of _ d] exI [of _ rest] exI [of _ n])
  next
    assume ?R
    then obtain own rp kind num rest n where
      u: "u = ''https://github.com/'' @ own @ ''/'' @ rp @ ''/'' @ kind @ ''/'' @ num @ rest" and
      h: "CHR ''/'' \<notin> set own" "CHR ''/'' \<notin> set rp" "CHR ''/'' \<notin> set kind"
         "rest = [] \<or> hd rest = CHR ''/''" "Atoi num = Some n" and
      r: "r = \<lparr>owner = own, repo = rp, number = n\<rparr>"
      by (elim exE conjE)
    show ?L
      unfolding u r by (rule crackPRInfo_structure [OF h])
  qed
next
  show "(\<forall>r'. crackPRInfo u \<noteq> Inr r') \<longrightarrow> (\<exists>err. crackPRInfo u = Inl err)"
    by (cases "crackPRInfo u") auto
next
  show "crackPRInfo ''https://github.com/ownerX/repoY/pull/42''
     = Inr \<lparr>owner = ''ownerX'', repo = ''repoY'', number = 42\<rparr>"
    by (simp add: crackPRInfo_def HasPrefix_def TrimPrefix_def Atoi_def digitVal_def)
qed

text \<open>
  Instances: an address with a negative number and a trailing segment is decomposed; an
  address with another scheme is a fatal error.
\<close>

theorem crackPRInfo_succeeds_iff_witness:
  "crackPRInfo ''https://github.com/a/b/issues/-7/files''
     = Inr \<lparr>owner = ''a'', repo = ''b'', number = - 7\<rparr> \<and>
   (\<forall>r'. crackPRInfo ''http://github.com/a/b/pull/1'' \<noteq> Inr r') \<and>
   (\<exists>err. crackPRInfo ''http://github.com/a/b/pull/1'' = Inl err)"
proof -
  have "\<exists>own rp kind num rest n.
         ''https://github.com/a/b/issues/-7/files'' =
            ''https://github.com/'' @ own @ ''/'' @ rp @ ''/'' @ kind @ ''/'' @ num @ rest \<and>
         CHR ''/'' \<notin> set own \<and> CHR ''/'' \<notin> set rp \<and> CHR ''/'' \<notin> set kind \<and>
         (rest = [] \<or> hd rest = CHR ''/'') \<and> Atoi num = Some n \<and>
         \<lparr>owner = ''a'', repo = ''b'', number = - 7\<rparr> = \<lparr>owner = own, repo = rp, number = n\<rparr>"
    by (intro exI [of _ "''a''"] exI [of _ "''b''"] exI [of _ "''issues''"] exI [of _ "''-7''"]
          exI [of _ "''/files''"] exI [of _ "- 7"])
       (simp add: Atoi_def digitVal_def)
  then have ok: "crackPRInfo ''https://github.com/a/b/issues/-7/files''
     = Inr \<lparr>owner = ''a'', repo = ''b'', number = - 7\<rparr>"
    by (rule crackPRInfo_succeeds_iff [THEN conjunct2, THEN conjunct1, THEN iffD2])
  have bad: "\<forall>r'. crackPRInfo ''http://github.com/a/b/pull/1'' \<noteq> Inr r'"
    by (simp add: crackPRInfo_def HasPrefix_def)
  have "\<exists>err. crackPRInfo ''http://github.com/a/b/pull/1'' = Inl err"
    by (rule crackPRInfo_succeeds_iff
          [THEN conjunct2, THEN conjunct2, THEN conjunct1, THEN mp, OF bad])
  with ok bad show ?thesis by (intro conjI)
qed

text \<open>
  The claim as it is written asks for a positive integer. The fourth segments \<^verbatim>\<open>0\<close> and
  \<^verbatim>\<open>-5\<close> are not positive, and decomposition succeeds on them.
\<close>

theorem positive_integer_counterexample:
  "crackPRInfo ''https://github.com/ownerX/repoY/pull/0''
     = Inr \<lparr>owner = ''ownerX'', repo = ''repoY'', number = 0\<rparr> \<and>
   Split ''ownerX/repoY/pull/0'' (CHR ''/'') ! 3 = ''0'' \<and>
   Atoi ''0'' = Some 0 \<and> \<not> (0::int) < 0 \<and>
   crackPRInfo ''https://github.com/ownerX/repoY/pull/-5''
     = Inr \<lparr>owner = ''ownerX'', repo = ''repoY'', number = - 5\<rparr> \<and>
   Atoi ''-5'' = Some (- 5) \<and> \<not> (0::int) < - 5"
  by (simp add: crack_defs)

text \<open>
  C10. With the prefix, an owner, a repository, a third segment and a fourth segment that
  \<^verbatim>\<open>strconv.Atoi\<close> accepts, decomposition succeeds and returns that owner, that
  repository and the parsed number, for every third segment and for every list of
  trailing segments: two addresses that differ only there have the same result.
\<close>

theorem kind_and_trailing_ignored:
  assumes "CHR ''/'' \<notin> set own" and "CHR ''/'' \<notin> set rp"
    and "CHR ''/'' \<notin> set kind" and "CHR ''/'' \<notin> set kind'"
    and "Atoi num = Some n"
  shows "crackPRInfo (''https://github.com/'' @ Join (own # rp # kind # num # trail) ''/'')
           = Inr \<lparr>owner = own, repo = rp, number = n\<rparr> \<and>
         crackPRInfo (''https://github.com/'' @ Join (own # rp # kind' # num # trail') ''/'')
           = Inr \<lparr>owner = own, repo = rp, number = n\<rparr>"
proof -
  have r: "\<And>m. (if m = [] then [] else ''/'' @ Join m ''/'') = [] \<or>
              hd (if m = [] then [] else ''/'' @ Join m ''/'') = CHR ''/''"
    by simp
  have A: "crackPRInfo (''https://github.com/'' @ own @ ''/'' @ rp @ ''/'' @ kind @ ''/'' @ num @
             (if trail = [] then [] else ''/'' @ Join trail ''/''))
           = Inr \<lparr>owner = own, repo = rp, number = n\<rparr>"
    by (rule crackPRInfo_structure [OF assms(1,2,3) r assms(5)])
  have B: "crackPRInfo (''https://github.com/'' @ own @ ''/'' @ rp @ ''/'' @ kind' @ ''/'' @ num @
             (if trail' = [] then [] else ''/'' @ Join trail' ''/''))
           = Inr \<lparr>owner = own, repo = rp, number = n\<rparr>"
    by (rule crackPRInfo_structure [OF assms(1,2,4) r assms(5)])
  show ?thesis
    unfolding Join_five using A B by (rule conjI)
qed

text \<open>
  The instance: \<^verbatim>\<open>pull/42\<close> and \<^verbatim>\<open>issues/42/files/x\<close> under the same owner and
  repository.
\<close>

theorem kind_and_trailing_ignored_witness:
  "CHR ''/'' \<notin> set ''ownerX'' \<and> CHR ''/'' \<notin> set ''repoY'' \<and>
   CHR ''/'' \<notin> set ''pull'' \<and> CHR ''/'' \<notin> set ''issues'' \<and> Atoi ''42'' = Some 42 \<and>
   crackPRInfo ''https://github.com/ownerX/repoY/pull/42''
     = Inr \<lparr>owner = ''ownerX'', repo = ''repoY'', number = 42\<rparr> \<and>
   crackPRInfo ''https://github.com/ownerX/repoY/issues/42/files/x''
     = Inr \<lparr>owner = ''ownerX'', repo = ''repoY'', number = 42\<rparr>"
proof -
  have h: "CHR ''/'' \<notin> set ''ownerX''" "CHR ''/'' \<notin> set ''repoY''"
    "CHR ''/'' \<notin> set ''pull''" "CHR ''/'' \<notin> set ''issues''" "Atoi ''42'' = Some 42"
    by (simp_all add: Atoi_def digitVal_def)
  from kind_and_trailing_ignored [OF h, of "[]" "[''files'', ''x'']"]
  have "crackPRInfo ''https://github.com/ownerX/repoY/pull/42''
     = Inr \<lparr>owner = ''ownerX'', repo = ''repoY'', number = 42\<rparr> \<and>
   crackPRInfo ''https://github.com/ownerX/repoY/issues/42/files/x''
     = Inr \<lparr>owner = ''ownerX'', repo = ''repoY'', number = 42\<rparr>"
    by simp
  with h show ?thesis by (intro conjI) simp_all
qed

subsection \<open>Report\<close>

lemma ReplaceTabs_Nil [simp]: "ReplaceTabs [] = []"
  by (simp add: ReplaceTabs_def)

lemma ReplaceTabs_Cons:
  "ReplaceTabs (c # cs) = (if c = tab then ''    '' else [c]) @ ReplaceTabs cs"
  by (simp add: ReplaceTabs_def)

lemma ReplaceTabs_append: "ReplaceTabs (a @ b) = ReplaceTabs a @ ReplaceTabs b"
  by (simp add: ReplaceTabs_def)

lemma ReplaceTabs_newline [simp]: "ReplaceTabs [newline] = [newline]"
  by (simp add: ReplaceTabs_def newline_def tab_def)

lemma ReplaceTabs_Join:
  "ReplaceTabs (Join xs [newline]) = Join (map ReplaceTabs xs) [newline]"
  by (induction xs "[newline]" rule: Join.induct)
     (simp_all add: ReplaceTabs_append ReplaceTabs_Cons newline_def tab_def)

lemma ReplaceTabs_same: "tab \<notin> set s \<Longrightarrow> ReplaceTabs s = s"
  by (induction s) (auto simp: ReplaceTabs_Cons)





lemma titles_no_tab:
  "tab \<notin> set ''Merged''" "tab \<notin> set ''Abandoned''" "tab \<notin> set ''Under Review''"
  "tab \<notin> set ''In Progress''" "tab \<notin> set ''Reviewed''" "tab \<notin> set ''Issues''"
  "tab \<notin> set ''* GitHub''"
  by (simp_all add: tab_def)



lemma ex_empty_validOrders: "validOrders exEmptyOrders exEmptySets"
  by (simp add: validOrders_def visits_def exEmptyOrders_def exEmptySets_def)

lemma Join_heading:
  "Join (h # rest) [newline] = h \<or> (\<exists>t. Join (h # rest) [newline] = h @ newline # t)"
  by (cases rest) simp_all

lemma newline_not_in_heading: "newline \<notin> set ''* GitHub''"
  by (simp add: newline_def)

lemma markdown_heading:
  "markdown vo e = ''* GitHub'' \<or> (\<exists>t. markdown vo e = ''* GitHub'' @ newline # t)"
proof -
  obtain rest where r: "map ReplaceTabs (markdownLines vo e) = ''* GitHub'' # rest"
    by (simp add: markdownLines_def ReplaceTabs_same [OF titles_no_tab(7)] del: append.simps)
       (simp add: ReplaceTabs_def tab_def)
  have "markdown vo e = Join (''* GitHub'' # rest) [newline]"
    by (simp only: markdown_def ReplaceTabs_Join r)
  with Join_heading [of "''* GitHub''" rest] show ?thesis
    by simp
qed




text \<open>
  C9. For every partition, the first line of the report is \<^verbatim>\<open>* GitHub\<close>, and the
  report begins with it; when the six categories are empty the report is that line and
  nothing else.
\<close>

theorem report_heading:
  "hd (Split (markdown vo e) newline) = ''* GitHub'' \<and>
   HasPrefix (markdown vo e) ''* GitHub'' \<and>
   (validOrders vo e \<and> merged e = {} \<and> abandoned e = {} \<and> underReview e = {} \<and>
      inProgress e = {} \<and> reviewed e = {} \<and> issues e = {} \<longrightarrow>
    markdown vo e = ''* GitHub'')"
proof (intro conjI impI)
  from markdown_heading [of vo e] consider
    (only) "markdown vo e = ''* GitHub''" |
    (more_lines) t where "markdown vo e = ''* GitHub'' @ newline # t"
    by blast
  then show "hd (Split (markdown vo e) newline) = ''* GitHub''"
  proof cases
    case only
    then show ?thesis
      by (simp only: Split_no_sep [OF newline_not_in_heading] list.sel)
  next
    case more_lines
    then show ?thesis
      by (simp only: Split_append [OF newline_not_in_heading] list.sel)
  qed
next
  from markdown_heading [of vo e] obtain t where "markdown vo e = ''* GitHub'' @ t"
    by auto
  then show "HasPrefix (markdown vo e) ''* GitHub''"
    by (simp add: HasPrefix_def)
next
  assume a: "validOrders vo e \<and> merged e = {} \<and> abandoned e = {} \<and> underReview e = {} \<and>
      inProgress e = {} \<and> reviewed e = {} \<and> issues e = {}"
  then have "v_merged vo = []" "v_abandoned vo = []" "v_underReview vo = []"
    "v_inProgress vo = []" "v_reviewed vo = []" "v_issues vo = []"
    by (auto simp: validOrders_def visits_def)
  then show "markdown vo e = ''* GitHub''"
    by (simp add: markdown_def markdownLines_def printSection_def
        ReplaceTabs_same [OF titles_no_tab(7)])
qed

text \<open>
  The instances: the partition without members, and the first line of the report of a
  partition with members.
\<close>

theorem report_heading_witness:
  "validOrders exEmptyOrders exEmptySets \<and>
   merged exEmptySets = {} \<and> abandoned exEmptySets = {} \<and> underReview exEmptySets = {} \<and>
   inProgress exEmptySets = {} \<and> reviewed exEmptySets = {} \<and> issues exEmptySets = {} \<and>
   markdown exEmptyOrders exEmptySets = ''* GitHub'' \<and>
   hd (Split (markdown exOrders exSets) newline) = ''* GitHub''"
proof -
  have h: "validOrders exEmptyOrders exEmptySets \<and>
   merged exEmptySets = {} \<and> abandoned exEmptySets = {} \<and> underReview exEmptySets = {} \<and>
   inProgress exEmptySets = {} \<and> reviewed exEmptySets = {} \<and> issues exEmptySets = {}"
    using ex_empty_validOrders by (simp add: exEmptySets_def)
  have "markdown exEmptyOrders exEmptySets = ''* GitHub''"
    by (rule report_heading [THEN conjunct2, THEN conjunct2, THEN mp, OF h])
  moreover have "hd (Split (markdown exOrders exSets) newline) = ''* GitHub''"
    by (rule report_heading [THEN conjunct1])
  ultimately show ?thesis using h by simp
qed

end
